theory Spec2Isabelle
  imports Main "HOL-Library.Signed_Division" "HOL-Library.Multiset"
begin

unbundle bit_operations_syntax

section \<open>The drawing module of the m17n library (draw.c), embedded in HOL\<close>

text \<open>
  The C integers of draw.c are signed \<open>int\<close>s; signed overflow is undefined in C, so
  they are modelled by the unbounded \<open>int\<close> of HOL.  C's \<open>/\<close> and \<open>%\<close> truncate
  towards zero: they are \<open>sdiv\<close> and \<open>smod\<close>.  An array that a pointer walks is a
  list, and a pointer into it is the suffix it points at or an index.
\<close>

subsection \<open>Texts\<close>

text \<open>
  draw.c reads an M-text only through \<open>mtext_ref_char\<close>, which m17n-core.h declares
  and whose body is not among the sources: a text is taken as its character function.
\<close>

type_synonym MText = "int \<Rightarrow> int"

definition mtext_ref_char :: "MText \<Rightarrow> int \<Rightarrow> int" where
  "mtext_ref_char mt pos = mt pos"

subsection \<open>mdraw\_default\_line\_break\<close>

text \<open>The test \<open>c == ' ' || c == '\t'\<close>.\<close>

definition space_or_tab :: "int \<Rightarrow> bool" where
  "space_or_tab c = (c = 32 \<or> c = 9)"

text \<open>
  The loop of the first branch:
  \<open>while (pos < to && ((c = mtext_ref_char (mt, pos)) == ' ' || c == '\t')) pos++;\<close>
\<close>

function skip_forward :: "MText \<Rightarrow> int \<Rightarrow> int \<Rightarrow> int" where
  "skip_forward mt to pos =
     (if pos < to \<and> space_or_tab (mtext_ref_char mt pos)
      then skip_forward mt to (pos + 1) else pos)"
  by pat_completeness auto
termination
  by (relation "measure (\<lambda>(mt, to, pos). nat (to - pos))") auto

declare skip_forward.simps [simp del]

text \<open>
  The loop of the second branch, on the pair \<open>(pos, c)\<close>:
  \<open>while (pos > from) { if (c == ' ' || c == '\t') break; pos--; c = mtext_ref_char (mt, pos); }\<close>
  It returns the value of \<open>pos\<close> at the exit.
\<close>

function walk_backward :: "MText \<Rightarrow> int \<Rightarrow> int \<Rightarrow> int \<Rightarrow> int" where
  "walk_backward mt from pos c =
     (if pos > from
      then (if space_or_tab c then pos
            else walk_backward mt from (pos - 1) (mtext_ref_char mt (pos - 1)))
      else pos)"
  by pat_completeness auto
termination
  by (relation "measure (\<lambda>(mt, from, pos, c). nat (pos - from))") auto

declare walk_backward.simps [simp del]

definition mdraw_default_line_break ::
  "MText \<Rightarrow> int \<Rightarrow> int \<Rightarrow> int \<Rightarrow> int \<Rightarrow> int \<Rightarrow> int" where
  "mdraw_default_line_break mt pos from to line y =
     (let c = mtext_ref_char mt pos;
          orig_pos = pos
      in if space_or_tab c
         then skip_forward mt to (pos + 1)
         else (let pos' = walk_backward mt from pos c
               in if pos' = from then orig_pos else pos' + 1))"

text \<open>Sample texts for the concrete evaluations: the characters of a string, and
  newlines past its end.\<close>

definition text_of :: "string \<Rightarrow> MText" where
  "text_of s pos =
     (if 0 \<le> pos \<and> nat pos < length s then int (of_char (s ! nat pos)) else 10)"

subsection \<open>Combining codes\<close>

text \<open>
  Modelled from the spec: the macros \<open>MAKE_COMBINING_CODE\<close>,
  \<open>MAKE_COMBINING_CODE_BY_CLASS\<close>, \<open>COMBINING_BY_CLASS_P\<close>, \<open>COMBINING_CODE_CLASS\<close>
  and the six field readers are defined in internal-gui.h, which is not among the
  sources.  The spec (section 3) describes the packed code as six fields
  \<open>(base_y, base_x, add_y, add_x, off_y, off_x)\<close>: four 2-bit alignment fields, two
  8-bit offsets biased by 128, and a sentinel bit that marks a by-class code, which
  carries the number of a combining class instead.  The packing below puts the sentinel
  at bit 24 over a 24-bit payload.
\<close>

definition MAKE_COMBINING_CODE :: "int \<Rightarrow> int \<Rightarrow> int \<Rightarrow> int \<Rightarrow> int \<Rightarrow> int \<Rightarrow> int" where
  "MAKE_COMBINING_CODE base_y base_x add_y add_x off_y off_x =
     (push_bit 16 off_y OR push_bit 8 off_x OR push_bit 6 base_x
      OR push_bit 4 base_y OR push_bit 2 add_x OR add_y)"

definition COMBINING_CODE_OFF_Y :: "int \<Rightarrow> int" where
  "COMBINING_CODE_OFF_Y code = drop_bit 16 code AND 0xFF"

definition COMBINING_CODE_OFF_X :: "int \<Rightarrow> int" where
  "COMBINING_CODE_OFF_X code = drop_bit 8 code AND 0xFF"

definition COMBINING_CODE_BASE_X :: "int \<Rightarrow> int" where
  "COMBINING_CODE_BASE_X code = drop_bit 6 code AND 0x3"

definition COMBINING_CODE_BASE_Y :: "int \<Rightarrow> int" where
  "COMBINING_CODE_BASE_Y code = drop_bit 4 code AND 0x3"

definition COMBINING_CODE_ADD_X :: "int \<Rightarrow> int" where
  "COMBINING_CODE_ADD_X code = drop_bit 2 code AND 0x3"

definition COMBINING_CODE_ADD_Y :: "int \<Rightarrow> int" where
  "COMBINING_CODE_ADD_Y code = code AND 0x3"

definition MAKE_COMBINING_CODE_BY_CLASS :: "int \<Rightarrow> int" where
  "MAKE_COMBINING_CODE_BY_CLASS class = (0x1000000 OR class)"

definition COMBINING_BY_CLASS_P :: "int \<Rightarrow> bool" where
  "COMBINING_BY_CLASS_P code = (code AND 0x1000000 \<noteq> 0)"

definition COMBINING_CODE_CLASS :: "int \<Rightarrow> int" where
  "COMBINING_CODE_CLASS code = code AND 0xFFFFFF"

subsection \<open>combining\_code\_from\_class\<close>

definition combining_code_from_class :: "int \<Rightarrow> int" where
  "combining_code_from_class class =
     (if class < 200 then MAKE_COMBINING_CODE 3 1 3 1 128 128
      else if class = 200 then MAKE_COMBINING_CODE 2 0 0 1 128 128
      else if class = 202 then MAKE_COMBINING_CODE 2 1 0 1 128 128
      else if class = 204 then MAKE_COMBINING_CODE 2 2 0 1 128 128
      else if class = 208 then MAKE_COMBINING_CODE 3 0 3 2 128 128
      else if class = 210 then MAKE_COMBINING_CODE 3 2 3 0 128 128
      else if class = 212 then MAKE_COMBINING_CODE 0 0 2 1 128 128
      else if class = 214 then MAKE_COMBINING_CODE 0 1 2 1 128 128
      else if class = 216 then MAKE_COMBINING_CODE 0 2 2 1 128 128
      else if class = 218 then MAKE_COMBINING_CODE 2 0 0 1 122 128
      else if class = 220 then MAKE_COMBINING_CODE 2 1 0 1 122 128
      else if class = 222 then MAKE_COMBINING_CODE 2 2 0 1 122 128
      else if class = 224 then MAKE_COMBINING_CODE 3 0 3 2 128 122
      else if class = 226 then MAKE_COMBINING_CODE 3 2 3 0 128 133
      else if class = 228 then MAKE_COMBINING_CODE 0 0 2 1 133 128
      else if class = 230 then MAKE_COMBINING_CODE 0 1 2 1 133 128
      else if class = 232 then MAKE_COMBINING_CODE 0 2 2 1 133 128
      else if class = 233 then MAKE_COMBINING_CODE 2 2 0 2 122 128
      else if class = 234 then MAKE_COMBINING_CODE 0 2 2 2 133 128
      else if class = 240 then MAKE_COMBINING_CODE 2 1 0 1 122 128
      else MAKE_COMBINING_CODE 3 1 3 1 128 128)"

text \<open>
  The spec's word for the codes of classes 212 to 216 and 228 to 232 is "above": the
  alignment point of the base is on its top edge (\<open>base_y = 0\<close>) and that of the mark on
  its bottom edge (\<open>add_y = 2\<close>); the values of the y fields are top 0, center 1, bottom
  2 and baseline 3, as layout\_glyphs reads them.
\<close>

definition placed_above :: "int \<Rightarrow> bool" where
  "placed_above code = (COMBINING_CODE_BASE_Y code = 0 \<and> COMBINING_CODE_ADD_Y code = 2)"

subsection \<open>Glyphs, faces and glyph strings\<close>

text \<open>
  The structures \<open>MGlyph\<close>, \<open>MGlyphString\<close>, \<open>MRealizedFace\<close>, \<open>MRealizedFont\<close>,
  \<open>MFaceBoxProp\<close>, \<open>MDrawControl\<close> and \<open>MFrame\<close> are declared in headers that are not
  among the sources; the records hold the members that draw.c reads and writes.  Members
  whose names would clash are renamed: a glyph's \<open>type\<close>, \<open>c\<close>, \<open>code\<close>, \<open>pos\<close>,
  \<open>to\<close>, \<open>width\<close>, \<open>lbearing\<close>, \<open>rbearing\<close>, \<open>ascent\<close>, \<open>descent\<close> carry a
  \<open>g\<close> in front, a glyph string's \<open>from\<close>, \<open>to\<close>, \<open>width\<close>, \<open>lbearing\<close>,
  \<open>rbearing\<close>, \<open>ascent\<close>, \<open>descent\<close> and \<open>height\<close> an \<open>s\<close>, a face's
  \<open>ascent\<close> and \<open>descent\<close> are \<open>face_ascent\<close> and \<open>face_descent\<close>, and a frame's
  members start with \<open>frame_\<close>.
\<close>

datatype glyph_type = GLYPH_CHAR | GLYPH_SPACE | GLYPH_PAD | GLYPH_BOX | GLYPH_ANCHOR

text \<open>A symbol (\<open>MSymbol\<close>) is its name; \<open>Mnil\<close> is the null symbol.\<close>

type_synonym MSymbol = "string option"

definition Mnil :: MSymbol where
  "Mnil = None"

definition McatCf :: MSymbol where
  "McatCf = Some ''Cf''"

definition MbidiR :: MSymbol where
  "MbidiR = Some ''R''"

definition MbidiAL :: MSymbol where
  "MbidiAL = Some ''AL''"

definition MbidiRLE :: MSymbol where
  "MbidiRLE = Some ''RLE''"

definition MbidiRLO :: MSymbol where
  "MbidiRLO = Some ''RLO''"

text \<open>\<open>MCHAR_INVALID_CODE\<close>, the code of a character a font cannot encode.\<close>

definition MCHAR_INVALID_CODE :: int where
  "MCHAR_INVALID_CODE = 0xFFFFFFFF"

text \<open>Of a realized font, draw.c reads \<open>font.property[MFONT_SIZE]\<close>.\<close>

record MRealizedFont =
  font_size :: int

text \<open>
  Boxes are compared as pointers (\<open>box != g->rface->box\<close>); \<open>box_addr\<close> stands for
  the address, so that two boxes are the same record exactly when they are the same
  object.
\<close>

record MFaceBoxProp =
  box_addr :: nat
  box_width :: int
  inner_hmargin :: int
  inner_vmargin :: int
  outer_hmargin :: int
  outer_vmargin :: int

record MRealizedFace =
  rfont :: "MRealizedFont option"
  box :: "MFaceBoxProp option"
  face_ascent :: int
  face_descent :: int
  space_width :: int

text \<open>
  A glyph points to its face; the record holds the face itself.  The tail anchor's
  \<open>rface\<close> is \<open>NULL\<close> in C and is never dereferenced by the functions below, so an
  anchor carries any face.
\<close>

record MGlyph =
  gtype :: glyph_type
  gchar :: int
  gcode :: int
  gpos :: int
  gto :: int
  rface :: MRealizedFace
  category :: MSymbol
  combining_code :: int
  bidi_level :: int
  gwidth :: int
  glbearing :: int
  grbearing :: int
  gascent :: int
  gdescent :: int
  xoff :: int
  yoff :: int
  left_padding :: bool
  right_padding :: bool

record MDrawControl =
  enable_bidi :: bool
  orientation_reversed :: bool
  two_dimensional :: bool
  max_line_width :: int
  tab_width :: int
  cursor_width :: int
  cursor_bidi :: bool
  fixed_width :: bool
  align_head :: bool
  ignore_formatting_char :: bool
  min_line_ascent :: int
  min_line_descent :: int
  max_line_ascent :: int
  max_line_descent :: int
  line_break :: "(MText \<Rightarrow> int \<Rightarrow> int \<Rightarrow> int \<Rightarrow> int \<Rightarrow> int \<Rightarrow> int) option"

record MGlyphString =
  glyphs :: "MGlyph list"
  sfrom :: int
  sto :: int
  indent :: int
  width_limit :: int
  swidth :: int
  slbearing :: int
  srbearing :: int
  sascent :: int
  sdescent :: int
  physical_ascent :: int
  physical_descent :: int
  text_ascent :: int
  text_descent :: int
  line_ascent :: int
  line_descent :: int
  sheight :: int
  sub_width :: int
  sub_lbearing :: int
  sub_rbearing :: int
  control :: MDrawControl

record MFrame =
  frame_space_width :: int
  frame_descent :: int
  frame_rface :: MRealizedFace

text \<open>\<open>MGLYPH (idx)\<close> is \<open>gstring->glyphs + idx\<close>; \<open>used\<close> is the number of glyphs.\<close>

definition MGLYPH :: "MGlyphString \<Rightarrow> nat \<Rightarrow> MGlyph" where
  "MGLYPH gstring idx = glyphs gstring ! idx"

definition used :: "MGlyphString \<Rightarrow> nat" where
  "used gstring = length (glyphs gstring)"

text \<open>
  \<open>INSERT_GLYPH (gstring, at, glyph)\<close> puts a glyph in front of the one at index
  \<open>at\<close> and moves the rest up.
\<close>

definition INSERT_GLYPH :: "MGlyphString \<Rightarrow> nat \<Rightarrow> MGlyph \<Rightarrow> MGlyphString" where
  "INSERT_GLYPH gstring at glyph =
     gstring\<lparr>glyphs := take at (glyphs gstring) @ glyph # drop at (glyphs gstring)\<rparr>"

text \<open>The class a glyph's combining code carries.\<close>

definition glyph_class :: "MGlyph \<Rightarrow> int" where
  "glyph_class g = COMBINING_CODE_CLASS (combining_code g)"

text \<open>
  Sample glyphs for the concrete evaluations, as compose\_glyph\_string leaves them:
  one character each, every other member zero.
\<close>

definition sample_face :: MRealizedFace where
  "sample_face = \<lparr>rfont = Some \<lparr>font_size = 120\<rparr>, box = None,
     face_ascent = 10, face_descent = 3, space_width = 10\<rparr>"

definition char_glyph :: "glyph_type \<Rightarrow> int \<Rightarrow> int \<Rightarrow> MGlyph" where
  "char_glyph t ch p = \<lparr>gtype = t, gchar = ch, gcode = ch, gpos = p, gto = p + 1,
     rface = sample_face, category = Mnil, combining_code = 0, bidi_level = 0,
     gwidth = 0, glbearing = 0, grbearing = 0, gascent = 0, gdescent = 0,
     xoff = 0, yoff = 0, left_padding = False, right_padding = False\<rparr>"

definition anchor_glyph :: "int \<Rightarrow> MGlyph" where
  "anchor_glyph p = (char_glyph GLYPH_ANCHOR 0 p)\<lparr>gto := p, gcode := MCHAR_INVALID_CODE\<rparr>"

definition mark_glyph :: "int \<Rightarrow> int \<Rightarrow> int \<Rightarrow> MGlyph" where
  "mark_glyph ch p class =
     (char_glyph GLYPH_CHAR ch p)\<lparr>category := Some ''Mn'',
        combining_code := MAKE_COMBINING_CODE_BY_CLASS class\<rparr>"

definition sample_control :: MDrawControl where
  "sample_control = \<lparr>enable_bidi = True, orientation_reversed = False,
     two_dimensional = True, max_line_width = 0, tab_width = 0, cursor_width = 0,
     cursor_bidi = False, fixed_width = False, align_head = False,
     ignore_formatting_char = False, min_line_ascent = 0, min_line_descent = 0,
     max_line_ascent = 0, max_line_descent = 0, line_break = None\<rparr>"

definition sample_gstring :: "MGlyph list \<Rightarrow> int \<Rightarrow> int \<Rightarrow> MGlyphString" where
  "sample_gstring gs f t = \<lparr>glyphs = gs, sfrom = f, sto = t, indent = 0, width_limit = 0,
     swidth = 0, slbearing = 0, srbearing = 0, sascent = 0, sdescent = 0,
     physical_ascent = 0, physical_descent = 0, text_ascent = 0, text_descent = 0,
     line_ascent = 0, line_descent = 0, sheight = 0, sub_width = 0, sub_lbearing = 0,
     sub_rbearing = 0, control = sample_control\<rparr>"

subsection \<open>reorder\_combining\_chars\<close>

text \<open>
  One run of the \<open>for\<close> loop: \<open>g\<close> walks from \<open>gbeg\<close> to \<open>gend\<close>, and
  \<open>prev\<close> is \<open>g[-1]\<close> as the swaps so far have left it.  The result is the range as
  the run leaves it and the flag \<open>reordered\<close>.
\<close>

fun reorder_pass :: "MGlyph \<Rightarrow> MGlyph list \<Rightarrow> MGlyph list \<times> bool" where
  "reorder_pass prev [] = ([prev], False)"
| "reorder_pass prev (g # gs) =
     (if glyph_class g > 0 \<and> glyph_class prev > glyph_class g
      then (case reorder_pass prev gs of (r, _) \<Rightarrow> (g # r, True))
      else (case reorder_pass g gs of (r, reordered) \<Rightarrow> (prev # r, reordered)))"

text \<open>
  The number of pairs of glyphs that stand in the wrong order of their classes; every
  swap takes one away, which is why \<open>while (reordered)\<close> ends.
\<close>

fun inversions :: "int list \<Rightarrow> nat" where
  "inversions [] = 0"
| "inversions (x # xs) = length (filter (\<lambda>y. x > y) xs) + inversions xs"

lemma reorder_pass_mset:
  "reorder_pass prev gs = (r, b) \<Longrightarrow> mset r = mset (prev # gs)"
proof (induction gs arbitrary: prev r b)
  case Nil
  then show ?case by simp
next
  case (Cons g gs)
  show ?case
  proof (cases "glyph_class g > 0 \<and> glyph_class prev > glyph_class g")
    case True
    obtain r' b' where p: "reorder_pass prev gs = (r', b')" by (cases "reorder_pass prev gs")
    with Cons.prems True have "r = g # r'" by simp
    with Cons.IH[OF p] show ?thesis by simp
  next
    case False
    obtain r' b' where p: "reorder_pass g gs = (r', b')" by (cases "reorder_pass g gs")
    with Cons.prems False have "r = prev # r'" by auto
    with Cons.IH[OF p] show ?thesis by simp
  qed
qed

lemma count_less_mset:
  "mset xs = mset ys \<Longrightarrow> length (filter P xs) = length (filter P ys)"
  by (metis mset_filter size_mset)

lemma reorder_pass_inversions:
  "reorder_pass prev gs = (r, b) \<Longrightarrow>
     inversions (map glyph_class r) + (if b then 1 else 0)
       \<le> inversions (map glyph_class (prev # gs))"
proof (induction gs arbitrary: prev r b)
  case Nil
  then show ?case by simp
next
  case (Cons g gs)
  show ?case
  proof (cases "glyph_class g > 0 \<and> glyph_class prev > glyph_class g")
    case True
    obtain r' b' where p: "reorder_pass prev gs = (r', b')" by (cases "reorder_pass prev gs")
    with Cons.prems True have r: "r = g # r'" and b: "b" by simp_all
    have m: "mset (map glyph_class r') = mset (map glyph_class (prev # gs))"
      using reorder_pass_mset[OF p] by (metis mset_map)
    have "length (filter (\<lambda>y. glyph_class g > y) (map glyph_class r'))
            = length (filter (\<lambda>y. glyph_class g > y) (map glyph_class (prev # gs)))"
      by (rule count_less_mset[OF m])
    also have "\<dots> = length (filter (\<lambda>y. glyph_class g > y) (map glyph_class gs))"
      using True by simp
    finally have c: "length (filter (\<lambda>y. glyph_class g > y) (map glyph_class r'))
            = length (filter (\<lambda>y. glyph_class g > y) (map glyph_class gs))" .
    have "inversions (map glyph_class r') \<le> inversions (map glyph_class (prev # gs))"
      using Cons.IH[OF p] by (simp split: if_splits)
    with c True show ?thesis unfolding r using b by simp
  next
    case False
    obtain r' b' where p: "reorder_pass g gs = (r', b')" by (cases "reorder_pass g gs")
    with Cons.prems False have r: "r = prev # r'" and b: "b = b'" by auto
    have m: "mset (map glyph_class r') = mset (map glyph_class (g # gs))"
      using reorder_pass_mset[OF p] by (metis mset_map)
    have c: "length (filter (\<lambda>y. glyph_class prev > y) (map glyph_class r'))
            = length (filter (\<lambda>y. glyph_class prev > y) (map glyph_class (g # gs)))"
      by (rule count_less_mset[OF m])
    from Cons.IH[OF p] c show ?thesis unfolding r b by simp
  qed
qed

text \<open>\<open>while (reordered) { reordered = 0; for (...) ...; }\<close> on the range.\<close>

function reorder_loop :: "MGlyph list \<Rightarrow> MGlyph list" where
  "reorder_loop [] = []"
| "reorder_loop (prev # gs) =
     (case reorder_pass prev gs of
        (r, reordered) \<Rightarrow> if reordered then reorder_loop r else r)"
  by pat_completeness auto
termination
proof (relation "measure (\<lambda>gs. inversions (map glyph_class gs))", goal_cases)
  case 1
  show ?case by simp
next
  case (2 prev gs r reordered)
  then have "reorder_pass prev gs = (r, True)" by simp
  from reorder_pass_inversions[OF this] show ?case by simp
qed

declare reorder_loop.simps [simp del]

text \<open>
  The range is \<open>glyphs[from .. to - 1]\<close>: \<open>gbeg = MGLYPH (from + 1)\<close>, \<open>gend =
  MGLYPH (to)\<close>, and the first comparison reads \<open>gbeg[-1]\<close>.  compose\_glyph\_string
  calls the function with \<open>from + 1 < to\<close> only; with \<open>to \<le> from\<close> the C loop would
  not end, and the model leaves the glyphs as they are.
\<close>

definition reorder_combining_chars :: "MGlyphString \<Rightarrow> nat \<Rightarrow> nat \<Rightarrow> MGlyphString" where
  "reorder_combining_chars gstring from to =
     gstring\<lparr>glyphs := take from (glyphs gstring)
                        @ reorder_loop (take (to - from) (drop from (glyphs gstring)))
                        @ drop to (glyphs gstring)\<rparr>"

text \<open>
  The state in which a run of the loop swaps nothing: no glyph of positive class stands
  right after a glyph of greater class.
\<close>

fun settled :: "MGlyph list \<Rightarrow> bool" where
  "settled (a # b # gs) = (\<not> (glyph_class b > 0 \<and> glyph_class a > glyph_class b) \<and> settled (b # gs))"
| "settled _ = True"

text \<open>
  Sample glyph strings: \<open>A\<close>, an acute accent (class 230), a dot below (class 220),
  \<open>B\<close>; and the same with an enclosing circle (class 0) between the two marks.
\<close>

definition marks_230_220 :: MGlyphString where
  "marks_230_220 = sample_gstring
     [anchor_glyph 0, char_glyph GLYPH_CHAR 65 0, mark_glyph 0x301 1 230,
      mark_glyph 0x323 2 220, char_glyph GLYPH_CHAR 66 3, anchor_glyph 4] 0 4"

definition marks_230_0_220 :: MGlyphString where
  "marks_230_0_220 = sample_gstring
     [anchor_glyph 0, char_glyph GLYPH_CHAR 65 0, mark_glyph 0x301 1 230,
      mark_glyph 0x20DD 2 0, mark_glyph 0x323 3 220, char_glyph GLYPH_CHAR 66 4,
      anchor_glyph 5] 0 5"

subsection \<open>visual\_order\<close>

text \<open>
  The function is modelled as it compiles without \<open>HAVE_FRIBIDI\<close>: the levels are 0
  and 1, and the indices reverse every run of level 1.  The table of bidi categories,
  \<open>mchar_get_prop (c, Mbidi_category)\<close>, is not among the sources and is a parameter.
\<close>

definition rtl_category :: "MSymbol \<Rightarrow> bool" where
  "rtl_category bidi = (bidi = MbidiR \<or> bidi = MbidiAL \<or> bidi = MbidiRLE \<or> bidi = MbidiRLO)"

text \<open>The test \<open>g->type != GLYPH_ANCHOR && g->combining_code\<close> of the first loop.\<close>

definition combining_follower :: "MGlyph \<Rightarrow> bool" where
  "combining_follower g = (gtype g \<noteq> GLYPH_ANCHOR \<and> combining_code g \<noteq> 0)"

text \<open>
  The first loop: \<open>g\<close> walks from \<open>MGLYPH (1)\<close> to the first anchor, \<open>i\<close> is
  \<open>GLYPH_INDEX (g)\<close>.  Every cluster gives one entry \<open>(idx, logical, levels)\<close>.
\<close>

function collect_logical ::
  "(int \<Rightarrow> MSymbol) \<Rightarrow> nat \<Rightarrow> MGlyph list \<Rightarrow> (nat \<times> int \<times> int) list" where
  "collect_logical bidi_category i [] = []"
| "collect_logical bidi_category i (g # gs) =
     (if gtype g = GLYPH_ANCHOR then []
      else (i, gchar g, if rtl_category (bidi_category (gchar g)) then 1 else 0)
           # collect_logical bidi_category
               (i + 1 + length (takeWhile combining_follower gs))
               (dropWhile combining_follower gs))"
  by pat_completeness auto
termination
  by (relation "measure (\<lambda>(b, i, gs). length gs)")
     (auto simp: length_dropWhile_le less_Suc_eq_le)

declare collect_logical.simps [simp del]

text \<open>
  The loop that fills \<open>indices\<close>, at index \<open>i\<close> with the levels from \<open>i\<close> on: a
  run of levels other than 0 from \<open>i\<close> up to \<open>j\<close> gets the indices \<open>j - 1\<close> down to
  \<open>i\<close>, a level 0 gets its own index.
\<close>

function reverse_runs :: "nat \<Rightarrow> int list \<Rightarrow> nat list" where
  "reverse_runs i [] = []"
| "reverse_runs i (l # ls) =
     (if l \<noteq> 0
      then (let j = i + 1 + length (takeWhile (\<lambda>l. l \<noteq> 0) ls)
            in rev [i..<j] @ reverse_runs j (dropWhile (\<lambda>l. l \<noteq> 0) ls))
      else i # reverse_runs (i + 1) ls)"
  by pat_completeness auto
termination
  by (relation "measure (\<lambda>(i, ls). length ls)")
     (auto simp: length_dropWhile_le less_Suc_eq_le)

declare reverse_runs.simps [simp del]

text \<open>
  The body of the last loop for one cluster: the glyph at \<open>k\<close> and the glyphs after
  it while \<open>k < gstring->used - 1 && glyphs[k].combining_code\<close>, each with its
  \<open>bidi_level\<close> set.
\<close>

definition copy_cluster :: "MGlyph list \<Rightarrow> nat \<Rightarrow> int \<Rightarrow> MGlyph list" where
  "copy_cluster gs k level =
     map (\<lambda>g. g\<lparr>bidi_level := level\<rparr>)
       (gs ! k # takeWhile (\<lambda>g. combining_code g \<noteq> 0) (drop (Suc k) (butlast gs)))"

definition visual_order :: "(int \<Rightarrow> MSymbol) \<Rightarrow> MGlyphString \<Rightarrow> MGlyphString" where
  "visual_order bidi_category gstring =
     (let entries = collect_logical bidi_category 1 (drop 1 (glyphs gstring));
          idx = map fst entries;
          levels = map (\<lambda>e. snd (snd e)) entries;
          size = length entries;
          bidi_sensitive = (orientation_reversed (control gstring)
                            \<or> list_ex (\<lambda>l. l \<noteq> 0) levels)
      in if \<not> bidi_sensitive then gstring
         else (let indices = reverse_runs 0 levels;
                   written = concat (map (\<lambda>i. copy_cluster (glyphs gstring)
                                                (idx ! (indices ! i)) (levels ! (indices ! i)))
                                       [0..<size])
               in gstring\<lparr>glyphs := take 1 (glyphs gstring) @ written
                                     @ drop (1 + length written) (glyphs gstring)\<rparr>))"

text \<open>The last statement of compose\_glyph\_string:
  \<open>if (gstring->control.enable_bidi) visual_order (gstring);\<close>\<close>

definition compose_glyph_string_reorder ::
  "(int \<Rightarrow> MSymbol) \<Rightarrow> MGlyphString \<Rightarrow> MGlyphString" where
  "compose_glyph_string_reorder bidi_category gstring =
     (if enable_bidi (control gstring) then visual_order bidi_category gstring else gstring)"



text \<open>A glyph without the level that the pass writes.\<close>

definition without_level :: "MGlyph \<Rightarrow> MGlyph" where
  "without_level g = g\<lparr>bidi_level := 0\<rparr>"

text \<open>
  Sample: the text of the spec's scenario 3, \<open>a b\<close>, two Hebrew letters, \<open>e f\<close>,
  and a table that gives the Hebrew block the category R.
\<close>

definition sample_bidi_category :: "int \<Rightarrow> MSymbol" where
  "sample_bidi_category ch = (if 0x5D0 \<le> ch \<and> ch \<le> 0x5EA then MbidiR else Some ''L'')"

definition ab_hebrew_ef :: MGlyphString where
  "ab_hebrew_ef = sample_gstring
     [anchor_glyph 0, char_glyph GLYPH_CHAR 97 0, char_glyph GLYPH_CHAR 98 1,
      char_glyph GLYPH_CHAR 0x5D0 2, char_glyph GLYPH_CHAR 0x5D1 3,
      char_glyph GLYPH_CHAR 101 4, char_glyph GLYPH_CHAR 102 5, anchor_glyph 6] 0 6"

definition hebrew_only :: MGlyphString where
  "hebrew_only = (sample_gstring
     [anchor_glyph 0, char_glyph GLYPH_CHAR 0x5D0 0, char_glyph GLYPH_CHAR 0x5D1 1,
      anchor_glyph 2] 0 2)\<lparr>control := sample_control\<lparr>enable_bidi := False\<rparr>\<rparr>"

definition ab_only :: MGlyphString where
  "ab_only = sample_gstring
     [anchor_glyph 0, char_glyph GLYPH_CHAR 97 0, char_glyph GLYPH_CHAR 98 1,
      anchor_glyph 2] 0 2"

text \<open>The index in the glyph buffer at which each cluster starts, the first at \<open>i\<close>.\<close>

fun cluster_starts :: "nat \<Rightarrow> MGlyph list list \<Rightarrow> nat list" where
  "cluster_starts i [] = []"
| "cluster_starts i (c # cs) = i # cluster_starts (i + length c) cs"


subsection \<open>layout\_glyphs\<close>

text \<open>
  Modelled from the spec: \<open>mfont__get_metric\<close> is defined in font.c, which is not among
  the sources.  By the spec (section 6, \<open>metrics\<close>) it fills the \<open>width\<close>,
  \<open>lbearing\<close>, \<open>rbearing\<close>, \<open>ascent\<close> and \<open>descent\<close> of each glyph from
  \<open>from\<close> up to \<open>to\<close>, as the FreeType driver's \<open>ft_find_metric\<close> does glyph by
  glyph; the metrics of a glyph are a parameter \<open>find_metric\<close>.
\<close>

record glyph_metric =
  m_width :: int
  m_lbearing :: int
  m_rbearing :: int
  m_ascent :: int
  m_descent :: int

definition set_metric :: "(MGlyph \<Rightarrow> glyph_metric) \<Rightarrow> MGlyph \<Rightarrow> MGlyph" where
  "set_metric find_metric g =
     g\<lparr>gwidth := m_width (find_metric g), glbearing := m_lbearing (find_metric g),
       grbearing := m_rbearing (find_metric g), gascent := m_ascent (find_metric g),
       gdescent := m_descent (find_metric g)\<rparr>"

definition mfont_get_metric ::
  "(MGlyph \<Rightarrow> glyph_metric) \<Rightarrow> MGlyph list \<Rightarrow> MGlyph list" where
  "mfont_get_metric find_metric gs = map (set_metric find_metric) gs"

text \<open>
  \<open>rfont->font.property[MFONT_SIZE]\<close> of a glyph's face.  layout\_glyphs is called for
  glyphs whose face has a font only (the test \<open>rfont && ...\<close> of its caller, and the
  run of glyphs ends where \<open>! rfont != ! g->rface->rfont\<close>); for a face without a font
  the C code would dereference \<open>NULL\<close>, and the model reads 0.
\<close>

definition font_size_of :: "MGlyph \<Rightarrow> int" where
  "font_size_of g = (case rfont (rface g) of Some f \<Rightarrow> font_size f | None \<Rightarrow> 0)"

text \<open>The branch "No combining": a base glyph with no mark after it.\<close>

definition layout_single :: "MGlyph \<Rightarrow> MGlyph" where
  "layout_single base =
     (let base1 = (if left_padding base \<and> glbearing base < 0
                   then base\<lparr>xoff := - glbearing base,
                             gwidth := gwidth base + (- glbearing base),
                             grbearing := grbearing base + (- glbearing base),
                             glbearing := 0\<rparr>
                   else base)
      in if right_padding base1 \<and> grbearing base1 > gwidth base1
         then base1\<lparr>gwidth := grbearing base1\<rparr>
         else base1)"

text \<open>
  The local variables of the branch "With combining glyphs": the box of the cluster
  relative to the right end of the base (\<open>left\<close>, \<open>right\<close>, \<open>top\<close>, \<open>bottom\<close>),
  its \<open>height\<close> and \<open>width\<close>, the bearings, and the character range \<open>begin\<close>,
  \<open>end\<close>.
\<close>

record cluster_box =
  c_left :: int
  c_right :: int
  c_top :: int
  c_bottom :: int
  c_height :: int
  c_width :: int
  c_lbearing :: int
  c_rbearing :: int
  c_begin :: int
  c_end :: int

definition cluster_init :: "MGlyph \<Rightarrow> cluster_box" where
  "cluster_init base =
     \<lparr>c_left = - gwidth base, c_right = 0, c_top = - gascent base, c_bottom = gdescent base,
      c_height = gdescent base - (- gascent base), c_width = gwidth base,
      c_lbearing = (if glbearing base < 0 then glbearing base else 0),
      c_rbearing = grbearing base, c_begin = gpos base, c_end = gto base\<rparr>"

text \<open>
  The body of \<open>while (g != last_g && g->combining_code)\<close> for the mark \<open>g\<close>: the
  mark gets its code (resolved from its class when it is a by-class code), its
  \<open>xoff\<close>, \<open>yoff\<close> and the width 0, and the box grows.
\<close>

definition combine_mark :: "cluster_box \<Rightarrow> MGlyph \<Rightarrow> cluster_box \<times> MGlyph" where
  "combine_mark b g =
     (let code = (if COMBINING_BY_CLASS_P (combining_code g)
                  then combining_code_from_class (COMBINING_CODE_CLASS (combining_code g))
                  else combining_code g);
          size = font_size_of g;
          off_x = (size * (COMBINING_CODE_OFF_X code - 128)) sdiv 1000;
          off_y = (size * (COMBINING_CODE_OFF_Y code - 128)) sdiv 1000;
          base_x = COMBINING_CODE_BASE_X code;
          base_y = COMBINING_CODE_BASE_Y code;
          add_x = COMBINING_CODE_ADD_X code;
          add_y = COMBINING_CODE_ADD_Y code;
          begin = (if c_begin b > gpos g then gpos g else c_begin b);
          end = (if c_begin b > gpos g then c_end b
                 else if c_end b < gto g then gto g else c_end b);
          x = c_left b + (c_width b * base_x - gwidth g * add_x) sdiv 2 + off_x;
          left = (if x < c_left b then x else c_left b);
          right = (if x + gwidth g > c_right b then x + gwidth g else c_right b);
          width = right - left;
          lbearing = (if x + glbearing g < left + c_lbearing b
                      then x + glbearing g - left else c_lbearing b);
          rbearing = (if x + grbearing g > left + c_rbearing b
                      then x + grbearing g - left else c_rbearing b);
          y0 = (if base_y < 3 then c_top b + (c_height b * base_y) sdiv 2 else 0);
          y1 = (if add_y < 3
                then y0 - (((gascent g + gdescent g) * add_y) sdiv 2 - gascent g) else y0);
          y = y1 - off_y;
          top = (if y - gascent g < c_top b then y - gascent g else c_top b);
          bottom = (if y + gdescent g > c_bottom b then y + gdescent g else c_bottom b)
      in (\<lparr>c_left = left, c_right = right, c_top = top, c_bottom = bottom,
           c_height = bottom - top, c_width = width, c_lbearing = lbearing,
           c_rbearing = rbearing, c_begin = begin, c_end = end\<rparr>,
          g\<lparr>combining_code := code, xoff := x, yoff := y, gwidth := 0\<rparr>))"

text \<open>The \<open>while\<close> loop over the marks of one cluster.\<close>

fun combine_marks :: "cluster_box \<Rightarrow> MGlyph list \<Rightarrow> cluster_box \<times> MGlyph list" where
  "combine_marks b [] = (b, [])"
| "combine_marks b (g # gs) =
     (case combine_mark b g of
        (b1, g1) \<Rightarrow> (case combine_marks b1 gs of (b2, gs1) \<Rightarrow> (b2, g1 # gs1)))"

text \<open>
  The branch "With combining glyphs" for a base and its marks: the glyphs of the cluster
  as the branch leaves them, and the local \<open>lbearing\<close> and \<open>rbearing\<close> that the
  totals of the run use.
\<close>

definition layout_cluster :: "MGlyph \<Rightarrow> MGlyph list \<Rightarrow> MGlyph list \<times> int \<times> int" where
  "layout_cluster base marks =
     (case combine_marks (cluster_init base) marks of
        (b, marks1) \<Rightarrow>
          (let base1 = base\<lparr>gascent := - c_top b, gdescent := c_bottom b,
                              glbearing := c_lbearing b, grbearing := c_rbearing b\<rparr>;
               base2 = (if c_left b < - gwidth base1
                        then base1\<lparr>xoff := - gwidth base1 - c_left b,
                                    gwidth := gwidth base1 + (- gwidth base1 - c_left b),
                                    grbearing := grbearing base1 + (- gwidth base1 - c_left b),
                                    glbearing := glbearing base1 + (- gwidth base1 - c_left b)\<rparr>
                        else base1);
               base3 = (if c_right b > 0
                        then base2\<lparr>gwidth := gwidth base2 + c_right b,
                                    grbearing := grbearing base2 + c_right b,
                                    right_padding := True\<rparr>
                        else base2);
               marks2 = (if c_right b > 0
                         then map (\<lambda>m. m\<lparr>xoff := xoff m - c_right b\<rparr>) marks1
                         else marks1)
           in (map (\<lambda>m. m\<lparr>gpos := c_begin b, gto := c_end b\<rparr>) (base3 # marks2),
               c_lbearing b, c_rbearing b)))"

text \<open>
  The totals of the run: \<open>g_physical_ascent\<close>, \<open>g_physical_descent\<close>, \<open>g_width\<close>,
  \<open>g_lbearing\<close>, \<open>g_rbearing\<close>.
\<close>

record run_totals =
  g_physical_ascent :: int
  g_physical_descent :: int
  g_width :: int
  g_lbearing :: int
  g_rbearing :: int

text \<open>The five statements that end the body of the outer loop.\<close>

definition add_to_totals :: "run_totals \<Rightarrow> MGlyph \<Rightarrow> int \<Rightarrow> int \<Rightarrow> run_totals" where
  "add_to_totals t base lbearing rbearing =
     \<lparr>g_physical_ascent = max (g_physical_ascent t) (gascent base),
      g_physical_descent = max (g_physical_descent t) (gdescent base),
      g_width = g_width t + gwidth base,
      g_lbearing = min (g_lbearing t) (g_width t + lbearing),
      g_rbearing = max (g_rbearing t) (g_width t + rbearing)\<rparr>"

text \<open>
  The outer loop \<open>while (g < last_g)\<close> on the glyphs from \<open>from\<close> up to \<open>to\<close>:
  the marks of a base are the glyphs after it that have a combining code.
\<close>

function layout_clusters :: "run_totals \<Rightarrow> MGlyph list \<Rightarrow> run_totals \<times> MGlyph list" where
  "layout_clusters t [] = (t, [])"
| "layout_clusters t (base # gs) =
     (if gs = [] \<or> combining_code (hd gs) = 0
      then (let base1 = layout_single base;
                lbearing = (if glbearing base1 < 0 then glbearing base1 else 0);
                rbearing = grbearing base1
            in case layout_clusters (add_to_totals t base1 lbearing rbearing) gs of
                 (t1, gs1) \<Rightarrow> (t1, base1 # gs1))
      else (case layout_cluster base (takeWhile (\<lambda>m. combining_code m \<noteq> 0) gs) of
              (cluster, lbearing, rbearing) \<Rightarrow>
                (case layout_clusters (add_to_totals t (hd cluster) lbearing rbearing)
                        (dropWhile (\<lambda>m. combining_code m \<noteq> 0) gs) of
                   (t1, gs1) \<Rightarrow> (t1, cluster @ gs1))))"
  by pat_completeness auto
termination
  by (relation "measure (\<lambda>(t, gs). length gs)")
     (auto simp: length_dropWhile_le less_Suc_eq_le)

declare layout_clusters.simps [simp del]

text \<open>
  layout\_glyphs on the glyphs from index \<open>from\<close> up to \<open>to\<close>, as it compiles without
  \<open>HAVE_OTF\<close>.
\<close>

definition layout_glyphs ::
  "(MGlyph \<Rightarrow> glyph_metric) \<Rightarrow> MGlyphString \<Rightarrow> nat \<Rightarrow> nat \<Rightarrow> MGlyphString" where
  "layout_glyphs find_metric gstring from to =
     (case layout_clusters
             \<lparr>g_physical_ascent = physical_ascent gstring,
              g_physical_descent = physical_descent gstring,
              g_width = 0, g_lbearing = 0, g_rbearing = 0\<rparr>
             (mfont_get_metric find_metric (take (to - from) (drop from (glyphs gstring)))) of
        (t, run) \<Rightarrow>
          gstring\<lparr>glyphs := take from (glyphs gstring) @ run @ drop to (glyphs gstring),
                  physical_ascent := g_physical_ascent t,
                  physical_descent := g_physical_descent t,
                  sub_width := g_width t,
                  sub_lbearing := g_lbearing t,
                  sub_rbearing := g_rbearing t\<rparr>)"

text \<open>The box of the cluster made of the glyph at \<open>from\<close> and the marks up to \<open>to\<close>, as
  the inner loop of layout\_glyphs leaves it.\<close>

definition cluster_box_of ::
  "(MGlyph \<Rightarrow> glyph_metric) \<Rightarrow> MGlyphString \<Rightarrow> nat \<Rightarrow> nat \<Rightarrow> cluster_box" where
  "cluster_box_of find_metric gstring from to =
     fst (combine_marks
            (cluster_init (set_metric find_metric (glyphs gstring ! from)))
            (map (set_metric find_metric)
               (take (to - Suc from) (drop (Suc from) (glyphs gstring)))))"

text \<open>
  Sample: \<open>i\<close> with a tilde (class 230) that is wider than the letter.  The letter is
  10 wide and 10 high, the tilde 20 wide and 3 high.
\<close>

definition sample_metric :: "MGlyph \<Rightarrow> glyph_metric" where
  "sample_metric g =
     (if gchar g = 0x303
      then \<lparr>m_width = 20, m_lbearing = 0, m_rbearing = 20, m_ascent = 3, m_descent = 0\<rparr>
      else \<lparr>m_width = 10, m_lbearing = 0, m_rbearing = 10, m_ascent = 10, m_descent = 0\<rparr>)"

definition i_tilde :: MGlyphString where
  "i_tilde = sample_gstring
     [anchor_glyph 0, char_glyph GLYPH_CHAR 105 0, mark_glyph 0x303 1 230, anchor_glyph 2] 0 2"

subsection \<open>layout\_glyph\_string\<close>

text \<open>
  The local variables of the main loop that outlive one round: the glyph string, the
  index of the pointer \<open>g\<close>, the current \<open>box\<close>, \<open>box_line_height\<close> and
  \<open>tab_found\<close>.
\<close>

record layout_state =
  ls_gstring :: MGlyphString
  ls_g :: nat
  ls_box :: "MFaceBoxProp option"
  ls_box_line_height :: int
  ls_tab_found :: bool

text \<open>
  The "default width of TAB" that opens the function.  The product is kept in the
  \<open>int\<close> \<open>tab_width\<close>, which has 32 bits: it wraps around.
\<close>

definition default_tab_width :: "MFrame \<Rightarrow> MGlyphString \<Rightarrow> int" where
  "default_tab_width frame gstring =
     signed_take_bit 31
       (frame_space_width frame
          * (if tab_width (control gstring) \<noteq> 0 then tab_width (control gstring)
             else 8))"

text \<open>The width of a box glyph, and the box glyph made from a copy of a glyph.\<close>

definition box_glyph_width :: "MDrawControl \<Rightarrow> MFrame \<Rightarrow> MFaceBoxProp \<Rightarrow> int" where
  "box_glyph_width ctl frame bx =
     (if fixed_width ctl then frame_space_width frame
      else inner_hmargin bx + box_width bx + outer_hmargin bx)"

definition right_box_glyph :: "MGlyph \<Rightarrow> int \<Rightarrow> MGlyph" where
  "right_box_glyph g w =
     g\<lparr>gtype := GLYPH_BOX, gwidth := w, glbearing := 0, grbearing := w, xoff := 0,
       right_padding := True\<rparr>"

definition left_box_glyph :: "MGlyph \<Rightarrow> int \<Rightarrow> MGlyph" where
  "left_box_glyph g w =
     g\<lparr>gtype := GLYPH_BOX, gwidth := w, glbearing := 0, grbearing := w, xoff := 0,
       left_padding := True\<rparr>"

text \<open>\<open>gstring->width += w; gstring->rbearing += w;\<close>\<close>

definition advance :: "MGlyphString \<Rightarrow> int \<Rightarrow> MGlyphString" where
  "advance gstring w =
     gstring\<lparr>swidth := swidth gstring + w, srbearing := srbearing gstring + w\<rparr>"

text \<open>Assignment to the glyph at an index.\<close>

definition set_glyph :: "MGlyphString \<Rightarrow> nat \<Rightarrow> MGlyph \<Rightarrow> MGlyphString" where
  "set_glyph gstring idx g = gstring\<lparr>glyphs := (glyphs gstring)[idx := g]\<rparr>"

text \<open>
  The block \<open>if (box != g->rface->box)\<close>: the right edge of the box that ends and
  the left edge of the box that begins are inserted in front of \<open>g\<close>.
\<close>

definition insert_box_edges :: "MFrame \<Rightarrow> layout_state \<Rightarrow> layout_state" where
  "insert_box_edges frame st =
     (let gstring = ls_gstring st; gidx = ls_g st; ctl = control gstring
      in if ls_box st \<noteq> box (rface (MGLYPH gstring gidx))
         then (let (gstring1, gidx1) =
                     (case ls_box st of
                        Some bx \<Rightarrow>
                          (let w = box_glyph_width ctl frame bx
                           in (INSERT_GLYPH (advance gstring w) gidx
                                 (right_box_glyph (MGLYPH gstring (gidx - 1)) w),
                               gidx + 1))
                      | None \<Rightarrow> (gstring, gidx));
                   box1 = box (rface (MGLYPH gstring1 gidx1))
               in (case box1 of
                     Some bx \<Rightarrow>
                       (let box_height = box_width bx + inner_vmargin bx + outer_vmargin bx;
                            w = box_glyph_width ctl frame bx
                        in st\<lparr>ls_gstring := INSERT_GLYPH (advance gstring1 w) gidx1
                                                (left_box_glyph (MGLYPH gstring1 gidx1) w),
                               ls_g := gidx1 + 1,
                               ls_box := box1,
                               ls_box_line_height :=
                                 (if ls_box_line_height st < box_height then box_height
                                  else ls_box_line_height st)\<rparr>)
                   | None \<Rightarrow> st\<lparr>ls_gstring := gstring1, ls_g := gidx1, ls_box := box1\<rparr>))
         else st)"

text \<open>
  The scan \<open>for (g++; g->type == GLYPH_CHAR; g++) if (...) break;\<close> from the glyph
  after \<open>fromg\<close>: the index at which it stops.
\<close>

definition run_break :: "MGlyphString \<Rightarrow> MFaceBoxProp option \<Rightarrow> MGlyph \<Rightarrow> MGlyph \<Rightarrow> bool" where
  "run_break gstring bx fromg g =
     ((rfont (rface fromg) = None) \<noteq> (rfont (rface g) = None)
      \<or> bx \<noteq> box (rface g)
      \<or> (gcode fromg = MCHAR_INVALID_CODE) \<noteq> (gcode g = MCHAR_INVALID_CODE)
      \<or> (category g = McatCf \<and> ignore_formatting_char (control gstring)))"

function scan_run :: "MGlyphString \<Rightarrow> MFaceBoxProp option \<Rightarrow> MGlyph \<Rightarrow> nat \<Rightarrow> nat" where
  "scan_run gstring bx fromg j =
     (if j < used gstring \<and> gtype (MGLYPH gstring j) = GLYPH_CHAR
         \<and> \<not> run_break gstring bx fromg (MGLYPH gstring j)
      then scan_run gstring bx fromg (j + 1) else j)"
  by pat_completeness auto
termination
  by (relation "measure (\<lambda>(gstring, bx, fromg, j). used gstring - j)") auto

declare scan_run.simps [simp del]

text \<open>
  The left padding of a run: when the run's \<open>sub_lbearing\<close> is negative, a pad glyph
  is inserted at \<open>from\<close>, and a space in front of it gives up width for it.  The
  result is the glyph string and the new \<open>to\<close>.
\<close>

definition pad_left :: "MGlyphString \<Rightarrow> nat \<Rightarrow> nat \<Rightarrow> MGlyphString \<times> nat" where
  "pad_left gstring from to =
     (let extra_width = - sub_lbearing gstring
      in if extra_width > 0 \<and> (to > 1 \<or> align_head (control gstring))
         then (let pad = (MGLYPH gstring from)\<lparr>gtype := GLYPH_PAD, xoff := 0, glbearing := 0,
                            gwidth := extra_width, grbearing := extra_width,
                            left_padding := True\<rparr>;
                   gstring1 = (INSERT_GLYPH gstring from pad)
                                \<lparr>sub_lbearing := 0,
                                 sub_width := sub_width gstring + extra_width,
                                 sub_rbearing := sub_rbearing gstring + extra_width\<rparr>;
                   g = MGLYPH gstring1 (from - 1)
               in if gtype g = GLYPH_SPACE
                  then (if extra_width + 2 < gwidth g
                        then ((set_glyph gstring1 (from - 1)
                                 (g\<lparr>gwidth := gwidth g - extra_width\<rparr>))
                                \<lparr>swidth := swidth gstring1 - extra_width,
                                 srbearing := srbearing gstring1 - extra_width\<rparr>,
                              to + 1)
                        else (let extra_width1 = extra_width - (gwidth g - 2)
                              in ((set_glyph gstring1 (from - 1) (g\<lparr>gwidth := 2\<rparr>))
                                     \<lparr>swidth := swidth gstring1 - extra_width1,
                                      srbearing := srbearing gstring1 - extra_width1\<rparr>,
                                  to + 1)))
                  else (gstring1, to + 1))
         else (gstring, to))"

text \<open>
  The right padding of a run: when \<open>sub_rbearing\<close> exceeds \<open>sub_width\<close>, a pad
  glyph is inserted at \<open>to\<close> in front of a space of the same box, or else the last
  glyph of the run is widened.  The pad's \<open>rbearing\<close> ends as 1, as the source assigns
  it last.
\<close>

definition pad_right ::
  "MGlyphString \<Rightarrow> MFaceBoxProp option \<Rightarrow> nat \<Rightarrow> MGlyphString \<times> nat" where
  "pad_right gstring bx to =
     (let extra_width = sub_rbearing gstring - sub_width gstring
      in if extra_width > 0
         then (let g = MGLYPH gstring to;
                   (gstring1, to1) =
                     (if gtype g = GLYPH_SPACE \<and> bx = box (rface g)
                      then (INSERT_GLYPH gstring to
                              ((MGLYPH gstring (to - 1))\<lparr>gtype := GLYPH_PAD, xoff := 0,
                                  glbearing := 0, gwidth := extra_width, grbearing := 1\<rparr>),
                            to + 1)
                      else (set_glyph gstring (to - 1)
                              ((MGLYPH gstring (to - 1))
                                 \<lparr>gwidth := gwidth (MGLYPH gstring (to - 1)) + extra_width\<rparr>),
                            to))
               in (gstring1\<lparr>sub_width := sub_width gstring1 + extra_width\<rparr>, to1))
         else (gstring, to))"

text \<open>The statements that add a laid-out run to the totals of the glyph string.\<close>

definition add_run :: "MGlyphString \<Rightarrow> MRealizedFace \<Rightarrow> MGlyphString" where
  "add_run gstring rf =
     (let gstring1 = (if slbearing gstring > swidth gstring + sub_lbearing gstring
                      then gstring\<lparr>slbearing := swidth gstring + sub_lbearing gstring\<rparr>
                      else gstring);
          gstring2 = (if srbearing gstring1 < swidth gstring1 + sub_rbearing gstring1
                      then gstring1\<lparr>srbearing := swidth gstring1 + sub_rbearing gstring1\<rparr>
                      else gstring1);
          gstring3 = gstring2\<lparr>swidth := swidth gstring2 + sub_width gstring2\<rparr>;
          gstring4 = (if sascent gstring3 < face_ascent rf
                      then gstring3\<lparr>sascent := face_ascent rf\<rparr> else gstring3)
      in if sdescent gstring4 < face_descent rf
         then gstring4\<lparr>sdescent := face_descent rf\<rparr> else gstring4)"

text \<open>
  The loop over the glyphs of a run that has no font or no glyph code: each gets the
  width of a space of the run's face, or 1 when it is a zero-width formatting
  character.
\<close>

fun layout_no_font :: "MRealizedFace \<Rightarrow> MGlyphString \<Rightarrow> nat \<Rightarrow> nat \<Rightarrow> MGlyphString" where
  "layout_no_font rf gstring fromg 0 = gstring"
| "layout_no_font rf gstring fromg (Suc n) =
     (let g = MGLYPH gstring fromg;
          w = (if (gchar g \<ge> 0x200B \<and> gchar g \<le> 0x200F)
                  \<or> (gchar g \<ge> 0x202A \<and> gchar g \<le> 0x202E)
               then 1 else space_width rf);
          g1 = g\<lparr>gwidth := w, grbearing := w, xoff := 0, glbearing := 0,
                 gascent := 0, gdescent := 0\<rparr>
      in layout_no_font rf (advance (set_glyph gstring fromg g1) w) (fromg + 1) n)"

text \<open>
  The branch \<open>g->type == GLYPH_CHAR\<close>.  In its second part the source compares
  \<open>gstring->descent\<close> with \<open>frame->descent\<close> and assigns
  \<open>frame->rface->descent\<close>; the model does the same.
\<close>

definition layout_char_run ::
  "(MGlyph \<Rightarrow> glyph_metric) \<Rightarrow> MFrame \<Rightarrow> layout_state \<Rightarrow> layout_state" where
  "layout_char_run find_metric frame st =
     (let gstring = ls_gstring st;
          from = ls_g st;
          fromg = MGLYPH gstring from;
          rf = rface fromg;
          to = scan_run gstring (ls_box st) fromg (from + 1)
      in if rfont rf \<noteq> None \<and> gcode fromg \<noteq> MCHAR_INVALID_CODE
         then (let gstring1 = layout_glyphs find_metric gstring from to;
                   (gstring2, to2) = pad_left gstring1 from to;
                   (gstring3, to3) = pad_right gstring2 (ls_box st) to2
               in st\<lparr>ls_gstring := add_run gstring3 rf, ls_g := to3\<rparr>)
         else (let gstring1 = layout_no_font rf gstring from (to - from);
                   gstring2 = (if sascent gstring1 < face_ascent (frame_rface frame)
                               then gstring1\<lparr>sascent := face_ascent (frame_rface frame)\<rparr>
                               else gstring1);
                   gstring3 = (if sdescent gstring2 < frame_descent frame
                               then gstring2\<lparr>sdescent := face_descent (frame_rface frame)\<rparr>
                               else gstring2)
               in st\<lparr>ls_gstring := gstring3, ls_g := to\<rparr>))"

text \<open>
  The branch \<open>g->type == GLYPH_SPACE\<close>.  \<open>space_glyph_width\<close> is the width by the
  character; \<open>absorb_pad\<close> is the block \<open>if (g[-1].type == GLYPH_PAD)\<close>.
\<close>

definition space_glyph_width :: "MFrame \<Rightarrow> MGlyphString \<Rightarrow> MGlyph \<Rightarrow> int" where
  "space_glyph_width frame gstring g =
     (if gchar g = 32 then space_width (rface g)
      else if gchar g = 10
      then (if cursor_width (control gstring) \<noteq> 0
            then (if cursor_bidi (control gstring) then 3
                  else if cursor_width (control gstring) < 0 then space_width (rface g)
                  else cursor_width (control gstring))
            else cursor_width (control gstring))
      else if gchar g = 9
      then default_tab_width frame gstring
           - ((indent gstring + swidth gstring) smod default_tab_width frame gstring)
      else 1)"

definition absorb_pad :: "MGlyph \<Rightarrow> int \<Rightarrow> int" where
  "absorb_pad prev w =
     (if gtype prev = GLYPH_PAD
      then (if w - gwidth prev < 1 then 2 else w - gwidth prev)
      else w)"

definition layout_space :: "MFrame \<Rightarrow> layout_state \<Rightarrow> layout_state" where
  "layout_space frame st =
     (let gstring = ls_gstring st;
          gidx = ls_g st;
          g = MGLYPH gstring gidx;
          w = absorb_pad (MGLYPH gstring (gidx - 1)) (space_glyph_width frame gstring g);
          gstring1 = advance (set_glyph gstring gidx (g\<lparr>gwidth := w, grbearing := w\<rparr>)) w;
          gstring2 = (if rfont (rface g) \<noteq> None
                      then (let gstring3 = (if sascent gstring1 < face_ascent (rface g)
                                            then gstring1\<lparr>sascent := face_ascent (rface g)\<rparr>
                                            else gstring1)
                            in if sdescent gstring3 < face_descent (rface g)
                               then gstring3\<lparr>sdescent := face_descent (rface g)\<rparr>
                               else gstring3)
                      else gstring1)
      in st\<lparr>ls_gstring := gstring2, ls_g := gidx + 1,
             ls_tab_found := (ls_tab_found st \<or> gchar g = 9)\<rparr>)"

text \<open>The last branch: a glyph that is neither a character nor a space.\<close>

definition layout_other :: "layout_state \<Rightarrow> layout_state" where
  "layout_other st =
     st\<lparr>ls_gstring := advance (ls_gstring st) (gwidth (MGLYPH (ls_gstring st) (ls_g st))),
        ls_g := ls_g st + 1\<rparr>"

text \<open>One round of \<open>while (g->type != GLYPH_ANCHOR)\<close>.\<close>

definition layout_step ::
  "(MGlyph \<Rightarrow> glyph_metric) \<Rightarrow> MFrame \<Rightarrow> layout_state \<Rightarrow> layout_state" where
  "layout_step find_metric frame st =
     (let st1 = insert_box_edges frame st;
          gstring = ls_gstring st1;
          g = MGLYPH gstring (ls_g st1);
          st2 = (if category g = McatCf \<and> ignore_formatting_char (control gstring)
                 then st1\<lparr>ls_gstring := set_glyph gstring (ls_g st1) (g\<lparr>gtype := GLYPH_SPACE\<rparr>)\<rparr>
                 else st1);
          t = gtype (MGLYPH (ls_gstring st2) (ls_g st2))
      in if t = GLYPH_CHAR then layout_char_run find_metric frame st2
         else if t = GLYPH_SPACE then layout_space frame st2
         else layout_other st2)"

subsection \<open>The main loop of layout\_glyph\_string\<close>

text \<open>
  Each round of the loop leaves fewer glyphs between the pointer \<open>g\<close> and the end
  of the array: the glyphs that a round inserts are inserted in front of \<open>g\<close>.
\<close>

lemma length_INSERT_GLYPH:
  "i \<le> used gs \<Longrightarrow> used (INSERT_GLYPH gs i g) = Suc (used gs)"
  by (simp add: INSERT_GLYPH_def used_def)

lemma used_advance: "used (advance gs w) = used gs"
  by (simp add: advance_def used_def)

lemma used_set_glyph: "used (set_glyph gs i g) = used gs"
  by (simp add: set_glyph_def used_def)

lemma insert_box_edges_measure:
  assumes "ls_g st < used (ls_gstring st)"
  shows "ls_g (insert_box_edges frame st) < used (ls_gstring (insert_box_edges frame st))
       \<and> used (ls_gstring (insert_box_edges frame st)) - ls_g (insert_box_edges frame st)
           = used (ls_gstring st) - ls_g st"
  using assms
  by (auto simp: insert_box_edges_def Let_def length_INSERT_GLYPH used_advance
           split: option.splits prod.splits)

lemma scan_run_bounds:
  "j \<le> used gs \<Longrightarrow> j \<le> scan_run gs bx fromg j \<and> scan_run gs bx fromg j \<le> used gs"
proof (induction gs bx fromg j rule: scan_run.induct)
  case (1 gstring bx fromg j)
  show ?case
  proof (cases "j < used gstring \<and> gtype (MGLYPH gstring j) = GLYPH_CHAR
         \<and> \<not> run_break gstring bx fromg (MGLYPH gstring j)")
    case True
    then have "j + 1 \<le> used gstring" by simp
    from "1.IH"[OF True this] True show ?thesis
      by (subst (1 2) scan_run.simps) simp
  next
    case False
    then have "scan_run gstring bx fromg j = j"
      by (subst scan_run.simps) (simp only: if_False)
    with "1.prems" show ?thesis by simp
  qed
qed

lemma combine_marks_Cons:
  "combine_marks b (g # gs)
     = (fst (combine_marks (fst (combine_mark b g)) gs),
        snd (combine_mark b g) # snd (combine_marks (fst (combine_mark b g)) gs))"
  by (simp split: prod.splits)

lemma combine_marks_length: "length (snd (combine_marks b ms)) = length ms"
  by (induction ms arbitrary: b) (simp_all add: combine_marks_Cons del: combine_marks.simps(2))

lemma layout_cluster_length: "length (fst (layout_cluster base marks)) = Suc (length marks)"
  by (cases "combine_marks (cluster_init base) marks")
     (use combine_marks_length[of "cluster_init base" marks] in
       \<open>simp add: layout_cluster_def Let_def\<close>)

lemma layout_clusters_length: "length (snd (layout_clusters t gs)) = length gs"
proof (induction t gs rule: layout_clusters.induct)
  case (1 t)
  show ?case by (simp add: layout_clusters.simps)
next
  case (2 t base gs)
  show ?case
  proof (cases "gs = [] \<or> combining_code (hd gs) = 0")
    case True
    define t1 where "t1 = add_to_totals t (layout_single base)
        (if glbearing (layout_single base) < 0 then glbearing (layout_single base) else 0)
        (grbearing (layout_single base))"
    have ih: "length (snd (layout_clusters t1 gs)) = length gs"
      using "2.IH"(1)[OF True refl refl refl] unfolding t1_def .
    have "layout_clusters t (base # gs)
        = (fst (layout_clusters t1 gs), layout_single base # snd (layout_clusters t1 gs))"
      by (subst layout_clusters.simps)
         (simp only: True if_True Let_def t1_def case_prod_beta)
    with ih show ?thesis by simp
  next
    case False
    obtain cl lb rb where l: "layout_cluster base (takeWhile (\<lambda>m. combining_code m \<noteq> 0) gs)
        = (cl, lb, rb)"
      by (cases "layout_cluster base (takeWhile (\<lambda>m. combining_code m \<noteq> 0) gs)")
    have lcl: "length cl = Suc (length (takeWhile (\<lambda>m. combining_code m \<noteq> 0) gs))"
      using layout_cluster_length[of base "takeWhile (\<lambda>m. combining_code m \<noteq> 0) gs"] l
      by simp
    have tot: "length (takeWhile (\<lambda>m. combining_code m \<noteq> 0) gs)
                 + length (dropWhile (\<lambda>m. combining_code m \<noteq> 0) gs) = length gs"
      by (metis length_append takeWhile_dropWhile_id)
    from "2.IH"(2)[OF False l[symmetric] refl] False lcl tot show ?thesis
      by (subst layout_clusters.simps) (simp add: l case_prod_beta)
  qed
qed

lemma used_layout_glyphs:
  "from \<le> to \<Longrightarrow> to \<le> used gs \<Longrightarrow> used (layout_glyphs find_metric gs from to) = used gs"
proof -
  assume a: "from \<le> to" "to \<le> used gs"
  obtain t run where l: "layout_clusters
             \<lparr>g_physical_ascent = physical_ascent gs,
              g_physical_descent = physical_descent gs,
              g_width = 0, g_lbearing = 0, g_rbearing = 0\<rparr>
             (mfont_get_metric find_metric (take (to - from) (drop from (glyphs gs)))) = (t, run)"
    by (cases "layout_clusters
             \<lparr>g_physical_ascent = physical_ascent gs,
              g_physical_descent = physical_descent gs,
              g_width = 0, g_lbearing = 0, g_rbearing = 0\<rparr>
             (mfont_get_metric find_metric (take (to - from) (drop from (glyphs gs))))")
  have "length run = length (mfont_get_metric find_metric (take (to - from) (drop from (glyphs gs))))"
    using layout_clusters_length[of _ "mfont_get_metric find_metric (take (to - from) (drop from (glyphs gs)))"] l
    by (metis snd_conv)
  then have "length run = to - from"
    using a by (simp add: mfont_get_metric_def used_def)
  then show ?thesis
    using a l by (simp add: layout_glyphs_def used_def)
qed

lemma pad_left_measure:
  "from \<le> to \<Longrightarrow> to \<le> used gs \<Longrightarrow>
     snd (pad_left gs from to) \<le> used (fst (pad_left gs from to))
   \<and> used (fst (pad_left gs from to)) - snd (pad_left gs from to) = used gs - to
   \<and> to \<le> snd (pad_left gs from to)"
  by (simp add: pad_left_def Let_def used_def INSERT_GLYPH_def set_glyph_def)

lemma pad_right_measure:
  "to \<le> used gs \<Longrightarrow>
     snd (pad_right gs bx to) \<le> used (fst (pad_right gs bx to))
   \<and> used (fst (pad_right gs bx to)) - snd (pad_right gs bx to) = used gs - to
   \<and> to \<le> snd (pad_right gs bx to)"
  by (simp add: pad_right_def Let_def used_def INSERT_GLYPH_def set_glyph_def
           split: prod.splits)

lemma used_add_run: "used (add_run gs rf) = used gs"
  by (simp add: add_run_def Let_def used_def)

lemma used_layout_no_font: "used (layout_no_font rf gs i n) = used gs"
  by (induction n arbitrary: gs i) (simp_all add: Let_def used_advance used_set_glyph)

lemma layout_char_run_measure:
  assumes "ls_g st < used (ls_gstring st)"
  shows "used (ls_gstring (layout_char_run find_metric frame st))
           - ls_g (layout_char_run find_metric frame st)
         < used (ls_gstring st) - ls_g st"
proof -
  define gs where "gs = ls_gstring st"
  define "from" where "from = ls_g st"
  define to where "to = scan_run gs (ls_box st) (MGLYPH gs from) (from + 1)"
  have f: "from < used gs" using assms by (simp add: gs_def from_def)
  then have "from + 1 \<le> used gs" by simp
  from scan_run_bounds[OF this, of "ls_box st" "MGLYPH gs from"]
  have to: "from < to" "to \<le> used gs" by (simp_all add: to_def)
  show ?thesis
  proof (cases "rfont (rface (MGLYPH gs from)) \<noteq> None
                \<and> gcode (MGLYPH gs from) \<noteq> MCHAR_INVALID_CODE")
    case True
    define gs1 where "gs1 = layout_glyphs find_metric gs from to"
    define p where "p = pad_left gs1 from to"
    define q where "q = pad_right (fst p) (ls_box st) (snd p)"
    have u1: "used gs1 = used gs"
      using to by (simp add: gs1_def used_layout_glyphs)
    have pm: "snd p \<le> used (fst p)" "used (fst p) - snd p = used gs - to"
      using pad_left_measure[of "from" to gs1] to u1 by (simp_all add: p_def)
    have qm: "used (fst q) - snd q = used gs - to"
      using pad_right_measure[OF pm(1), of "ls_box st"] pm(2) by (simp add: q_def)
    have res: "layout_char_run find_metric frame st
        = st\<lparr>ls_gstring := add_run (fst q) (rface (MGLYPH gs from)), ls_g := snd q\<rparr>"
      using True
      by (simp add: layout_char_run_def Let_def case_prod_beta gs_def from_def
            to_def gs1_def p_def q_def)
    show ?thesis
      unfolding res using qm to f
      by (simp add: used_add_run gs_def[symmetric] from_def[symmetric])
  next
    case False
    then have "rfont (rface (MGLYPH gs from)) = None
        \<or> gcode (MGLYPH gs from) = MCHAR_INVALID_CODE"
      by simp
    then have "ls_g (layout_char_run find_metric frame st) = to
      \<and> used (ls_gstring (layout_char_run find_metric frame st)) = used gs"
      by (elim disjE)
         (simp_all add: layout_char_run_def Let_def gs_def from_def to_def used_def
            used_layout_no_font[unfolded used_def])
    with to f show ?thesis by (simp add: gs_def[symmetric] from_def[symmetric])
  qed
qed

lemma layout_space_measure:
  "ls_g st < used (ls_gstring st) \<Longrightarrow>
     used (ls_gstring (layout_space frame st)) - ls_g (layout_space frame st)
       < used (ls_gstring st) - ls_g st"
  by (auto simp: layout_space_def Let_def used_def advance_def set_glyph_def)

lemma layout_other_measure:
  "ls_g st < used (ls_gstring st) \<Longrightarrow>
     used (ls_gstring (layout_other st)) - ls_g (layout_other st)
       < used (ls_gstring st) - ls_g st"
  by (simp add: layout_other_def used_def advance_def)

lemma layout_step_measure:
  assumes "ls_g st < used (ls_gstring st)"
  shows "used (ls_gstring (layout_step find_metric frame st))
           - ls_g (layout_step find_metric frame st)
         < used (ls_gstring st) - ls_g st"
proof -
  define st1 where "st1 = insert_box_edges frame st"
  define st2 where "st2 = (if category (MGLYPH (ls_gstring st1) (ls_g st1)) = McatCf
                      \<and> ignore_formatting_char (control (ls_gstring st1))
                 then st1\<lparr>ls_gstring := set_glyph (ls_gstring st1) (ls_g st1)
                        ((MGLYPH (ls_gstring st1) (ls_g st1))\<lparr>gtype := GLYPH_SPACE\<rparr>)\<rparr>
                 else st1)"
  have m1: "ls_g st1 < used (ls_gstring st1)"
    "used (ls_gstring st1) - ls_g st1 = used (ls_gstring st) - ls_g st"
    using insert_box_edges_measure[OF assms, of frame] by (simp_all add: st1_def)
  have m2: "ls_g st2 < used (ls_gstring st2)"
    "used (ls_gstring st2) - ls_g st2 = used (ls_gstring st) - ls_g st"
    using m1 by (simp_all add: st2_def used_set_glyph)
  have step: "layout_step find_metric frame st
      = (if gtype (MGLYPH (ls_gstring st2) (ls_g st2)) = GLYPH_CHAR
         then layout_char_run find_metric frame st2
         else if gtype (MGLYPH (ls_gstring st2) (ls_g st2)) = GLYPH_SPACE
         then layout_space frame st2 else layout_other st2)"
    by (simp add: layout_step_def Let_def st1_def[symmetric] st2_def[symmetric])
  show ?thesis
    unfolding step
    using layout_char_run_measure[OF m2(1), of find_metric frame]
      layout_space_measure[OF m2(1), of frame] layout_other_measure[OF m2(1)] m2(2)
    by simp
qed

text \<open>
  The loop \<open>while (g->type != GLYPH_ANCHOR)\<close>.  A glyph string ends with an anchor;
  in one that does not the pointer would leave the array, and the model stops at the end
  of the array.
\<close>

function layout_loop ::
  "(MGlyph \<Rightarrow> glyph_metric) \<Rightarrow> MFrame \<Rightarrow> layout_state \<Rightarrow> layout_state" where
  "layout_loop find_metric frame st =
     (if ls_g st < used (ls_gstring st)
         \<and> gtype (MGLYPH (ls_gstring st) (ls_g st)) \<noteq> GLYPH_ANCHOR
      then layout_loop find_metric frame (layout_step find_metric frame st)
      else st)"
  by pat_completeness auto
termination
  by (relation "measure (\<lambda>(find_metric, frame, st). used (ls_gstring st) - ls_g st)")
     (auto simp: layout_step_measure)

declare layout_loop.simps [simp del]

text \<open>The block \<open>if (box)\<close> after the loop: the right edge of the last box.\<close>

definition insert_last_box_edge :: "MFrame \<Rightarrow> layout_state \<Rightarrow> MGlyphString" where
  "insert_last_box_edge frame st =
     (let gstring = ls_gstring st
      in case ls_box st of
           Some bx \<Rightarrow>
             (let w = box_glyph_width (control gstring) frame bx
              in INSERT_GLYPH (advance gstring w) (ls_g st)
                   (right_box_glyph (MGLYPH gstring (ls_g st - 1)) w))
         | None \<Rightarrow> gstring)"

text \<open>
  The statements from \<open>gstring->text_ascent = gstring->ascent\<close> to
  \<open>gstring->height = ...\<close>: the ascent and descent of the text and of the line.
\<close>

definition clamp_line :: "int \<Rightarrow> int \<Rightarrow> int \<Rightarrow> int" where
  "clamp_line lo hi v =
     (if v < lo then lo
      else if hi \<noteq> 0 \<and> hi > lo \<and> v > hi then hi
      else v)"

definition finish_line_metrics :: "int \<Rightarrow> MGlyphString \<Rightarrow> MGlyphString" where
  "finish_line_metrics box_line_height gstring =
     (let ctl = control gstring;
          ta = (if sascent gstring < physical_ascent gstring
                then physical_ascent gstring else sascent gstring);
          td = (if sdescent gstring < physical_descent gstring
                then physical_descent gstring else sdescent gstring);
          gstring1 = gstring\<lparr>text_ascent := ta, text_descent := td,
                              line_ascent := ta, line_descent := td\<rparr>;
          gstring2 = (if box_line_height > 0
                      then gstring1\<lparr>line_ascent := ta + box_line_height,
                                     physical_ascent := ta + box_line_height,
                                     line_descent := td + box_line_height,
                                     physical_descent := td + box_line_height\<rparr>
                      else gstring1);
          la = clamp_line (min_line_ascent ctl) (max_line_ascent ctl) (line_ascent gstring2);
          ld = clamp_line (min_line_descent ctl) (max_line_descent ctl) (line_descent gstring2)
      in gstring2\<lparr>line_ascent := la, line_descent := ld, sheight := la + ld\<rparr>)"

text \<open>
  The loop "We must adjust TAB width for RTL orientation", from the glyph at
  \<open>used - 2\<close> down to the head anchor; \<open>tw\<close> is the default width of TAB.
\<close>

fun rtl_tab_fix :: "int \<Rightarrow> MGlyphString \<Rightarrow> nat \<Rightarrow> int \<Rightarrow> MGlyphString" where
  "rtl_tab_fix tw gstring 0 width = gstring"
| "rtl_tab_fix tw gstring (Suc n) width =
     (let g = MGLYPH gstring (Suc n)
      in if gtype g = GLYPH_ANCHOR then gstring
         else if gtype g = GLYPH_CHAR \<and> gchar g = 9
         then (let w0 = tw - (width smod tw);
                   w1 = (if gtype (MGLYPH gstring (Suc n + 1)) = GLYPH_PAD
                         then w0 - gwidth (MGLYPH gstring (Suc n + 1)) else w0);
                   w2 = (if gtype (MGLYPH gstring n) = GLYPH_PAD
                         then w1 - gwidth (MGLYPH gstring n) else w1);
                   this_width = (if w2 < 2 then 2 else w2);
                   gstring1 = (set_glyph gstring (Suc n) (g\<lparr>gwidth := this_width\<rparr>))
                                \<lparr>swidth := swidth gstring + (this_width - gwidth g),
                                 srbearing := srbearing gstring + (this_width - gwidth g)\<rparr>
               in rtl_tab_fix tw gstring1 n (width + this_width))
         else rtl_tab_fix tw gstring n (width + gwidth g))"

text \<open>
  The assignments in front of the loop: the totals are reset, \<open>g\<close> starts at the
  glyph after the head anchor, and there is no box yet.
\<close>

definition layout_start :: "MGlyphString \<Rightarrow> layout_state" where
  "layout_start gstring =
     \<lparr>ls_gstring = gstring\<lparr>sascent := 0, sdescent := 0, physical_ascent := 0,
                                physical_descent := 0, swidth := 0, slbearing := 0,
                                srbearing := 0\<rparr>,
      ls_g = 1, ls_box = None, ls_box_line_height = 0, ls_tab_found = False\<rparr>"

definition layout_glyph_string ::
  "(MGlyph \<Rightarrow> glyph_metric) \<Rightarrow> MFrame \<Rightarrow> MGlyphString \<Rightarrow> MGlyphString" where
  "layout_glyph_string find_metric frame gstring =
     (let st = layout_loop find_metric frame (layout_start gstring);
          gstring1 = insert_last_box_edge frame st;
          gstring2 = finish_line_metrics (ls_box_line_height st) gstring1
      in if orientation_reversed (control gstring2) \<and> ls_tab_found st
         then rtl_tab_fix (default_tab_width frame gstring) gstring2 (used gstring2 - 2)
                (indent gstring2)
         else gstring2)"

text \<open>
  Samples.  A frame whose default face is the sample face; the text \<open>a\<close>, space,
  composed under a given control; the text \<open>f\<close>, TAB, with a metric whose
  \<open>f\<close> reaches 2 pixels beyond its width; and the text TAB, \<open>j\<close>, whose
  \<open>j\<close> begins 3 pixels in front of its origin.
\<close>

definition sample_frame :: MFrame where
  "sample_frame = \<lparr>frame_space_width = 10, frame_descent = 3, frame_rface = sample_face\<rparr>"

definition a_space :: "MDrawControl \<Rightarrow> MGlyphString" where
  "a_space ctl =
     (sample_gstring
        [anchor_glyph 0, char_glyph GLYPH_CHAR 97 0, char_glyph GLYPH_SPACE 32 1,
         anchor_glyph 2] 0 2)\<lparr>control := ctl\<rparr>"

definition overhang_metric :: "MGlyph \<Rightarrow> glyph_metric" where
  "overhang_metric g =
     (if gchar g = 102
      then \<lparr>m_width = 10, m_lbearing = 0, m_rbearing = 12, m_ascent = 10, m_descent = 0\<rparr>
      else if gchar g = 106
      then \<lparr>m_width = 10, m_lbearing = - 3, m_rbearing = 10, m_ascent = 10, m_descent = 3\<rparr>
      else sample_metric g)"

definition f_tab :: MGlyphString where
  "f_tab = sample_gstring
     [anchor_glyph 0, char_glyph GLYPH_CHAR 102 0, char_glyph GLYPH_SPACE 9 1, anchor_glyph 2]
     0 2"

definition tab_j :: MGlyphString where
  "tab_j = sample_gstring
     [anchor_glyph 0, char_glyph GLYPH_SPACE 9 0, char_glyph GLYPH_CHAR 106 1, anchor_glyph 2]
     0 2"

definition tab_first :: MGlyphString where
  "tab_first = sample_gstring
     [anchor_glyph 0, char_glyph GLYPH_SPACE 9 0, char_glyph GLYPH_CHAR 97 1, anchor_glyph 2]
     0 2"

subsection \<open>truncate\_gstring\<close>

text \<open>
  \<open>pos_width[idx] += w\<close>.  An index outside the array is undefined behaviour in C;
  the model leaves the array as it is.
\<close>

definition add_at :: "int list \<Rightarrow> int \<Rightarrow> int \<Rightarrow> int list" where
  "add_at pos_width idx w =
     (if 0 \<le> idx \<and> idx < int (length pos_width)
      then pos_width[nat idx := pos_width ! nat idx + w]
      else pos_width)"

text \<open>
  The loop \<open>for (g = MGLYPH (1); g->type != GLYPH_ANCHOR; g++)
  pos_width[g->pos - gstring->from] += g->width;\<close> on the glyphs from \<open>g\<close> on.
\<close>

fun fill_pos_width :: "int \<Rightarrow> MGlyph list \<Rightarrow> int list \<Rightarrow> int list" where
  "fill_pos_width from [] pos_width = pos_width"
| "fill_pos_width from (g # gs) pos_width =
     (if gtype g = GLYPH_ANCHOR then pos_width
      else fill_pos_width from gs (add_at pos_width (gpos g - from) (gwidth g)))"

text \<open>The array \<open>POS_WIDTH\<close>, allocated with \<open>to - from\<close> zeros and filled.\<close>

definition pos_width_of :: "MGlyphString \<Rightarrow> int list" where
  "pos_width_of gstring =
     fill_pos_width (sfrom gstring) (drop 1 (glyphs gstring))
       (replicate (nat (sto gstring - sfrom gstring)) 0)"

text \<open>
  The loop \<open>for (i = 0, width = 0; i < gstring->to - gstring->from; i++)\<close> on what
  is left of the array from index \<open>i\<close>: the \<open>i\<close> at which it ends.
\<close>

fun overflow_index :: "int \<Rightarrow> int list \<Rightarrow> int \<Rightarrow> nat \<Rightarrow> nat" where
  "overflow_index limit [] width i = i"
| "overflow_index limit (w # ws) width i =
     (if w > 0 \<and> width + w > limit then i
      else overflow_index limit ws (width + w) (i + 1))"

definition overflow_point :: "MGlyphString \<Rightarrow> nat" where
  "overflow_point gstring = overflow_index (width_limit gstring) (pos_width_of gstring) 0 0"

text \<open>
  The position at which truncate\_gstring cuts the line, \<open>None\<close> when it returns
  without cutting.  The callback gets \<open>gstring->mt\<close>, which is the text \<open>mt\<close> of
  the call (alloc\_gstring stores it).
\<close>

definition break_position :: "MText \<Rightarrow> MGlyphString \<Rightarrow> int option" where
  "break_position mt gstring =
     (let pos = sfrom gstring + int (overflow_point gstring)
      in case line_break (control gstring) of
           Some break \<Rightarrow>
             (let pos1 = break mt pos (sfrom gstring) (sto gstring) 0 0
              in if pos1 \<le> sfrom gstring \<or> pos1 \<ge> sto gstring then None else Some pos1)
         | None \<Rightarrow> Some pos)"

text \<open>
  truncate\_gstring.  compose\_glyph\_string is in draw.c, but it makes the glyphs with
  \<open>mface__for_chars\<close>, \<open>mface__realize\<close>, \<open>mchar_get_prop\<close>, \<open>mtext_get_prop\<close>
  and \<open>mfont__flt_run\<close>, none of which is among the sources: the composer is the
  parameter \<open>compose\<close>, called as truncate\_gstring calls it.
\<close>

definition truncate_gstring ::
  "(MFrame \<Rightarrow> MText \<Rightarrow> int \<Rightarrow> int \<Rightarrow> MGlyphString \<Rightarrow> MGlyphString)
   \<Rightarrow> (MGlyph \<Rightarrow> glyph_metric) \<Rightarrow> MFrame \<Rightarrow> MText \<Rightarrow> MGlyphString \<Rightarrow> MGlyphString" where
  "truncate_gstring compose find_metric frame mt gstring =
     (case break_position mt gstring of
        None \<Rightarrow> gstring
      | Some pos \<Rightarrow>
          layout_glyph_string find_metric frame
            (compose frame mt (sfrom gstring) pos gstring))"

text \<open>
  Samples.  The composer of the samples makes the glyphs that compose\_glyph\_string
  makes of printable ASCII characters and spaces in a text without properties: an
  anchor at each end, one glyph for each character, a space glyph for a space, a
  newline or a TAB, all in the face of the frame; and it sets the range of the glyph
  string.  The text \<open>ab cdef\<close> is laid out with every glyph 10 wide, and may be 50
  wide.
\<close>

definition sample_compose ::
  "MFrame \<Rightarrow> MText \<Rightarrow> int \<Rightarrow> int \<Rightarrow> MGlyphString \<Rightarrow> MGlyphString" where
  "sample_compose frame mt from to gstring =
     gstring\<lparr>glyphs :=
               anchor_glyph from
               # map (\<lambda>pos. (char_glyph
                               (if mtext_ref_char mt pos = 32 \<or> mtext_ref_char mt pos = 10
                                   \<or> mtext_ref_char mt pos = 9
                                then GLYPH_SPACE else GLYPH_CHAR)
                               (mtext_ref_char mt pos) pos)\<lparr>rface := frame_rface frame\<rparr>)
                   [from..to - 1]
               @ [anchor_glyph to],
             sfrom := from, sto := to\<rparr>"

definition wide_glyph :: "glyph_type \<Rightarrow> int \<Rightarrow> int \<Rightarrow> MGlyph" where
  "wide_glyph t ch p = (char_glyph t ch p)\<lparr>gwidth := 10, grbearing := 10\<rparr>"

definition ab_cdef :: "MDrawControl \<Rightarrow> MGlyphString" where
  "ab_cdef ctl =
     (sample_gstring
        [anchor_glyph 0, wide_glyph GLYPH_CHAR 97 0, wide_glyph GLYPH_CHAR 98 1,
         wide_glyph GLYPH_SPACE 32 2, wide_glyph GLYPH_CHAR 99 3, wide_glyph GLYPH_CHAR 100 4,
         wide_glyph GLYPH_CHAR 101 5, wide_glyph GLYPH_CHAR 102 6, anchor_glyph 7] 0 7)
       \<lparr>width_limit := 50, control := ctl\<rparr>"

text \<open>A callback that answers the end of the line, which truncate\_gstring rejects.\<close>

definition break_at_end :: "MText \<Rightarrow> int \<Rightarrow> int \<Rightarrow> int \<Rightarrow> int \<Rightarrow> int \<Rightarrow> int" where
  "break_at_end mt pos from to line y = to"

subsection \<open>visual\_order with FriBidi\<close>

text \<open>
  With \<open>HAVE_FRIBIDI\<close> the levels, the indices and the visual characters come from
  \<open>fribidi_log2vis\<close>, and a glyph whose visual character differs from its logical
  one is mirrored.

  Modelled from the spec: \<open>fribidi_log2vis\<close> belongs to the FriBidi library and is not
  among the sources.  By the spec (section 4.2) the pass runs "a bidi engine (pluggable)
  with base direction derived from \<open>orientation_reversed\<close>"; the engine is the
  parameter \<open>log2vis\<close>, which answers, for the logical characters and the base
  direction, the visual characters, for each visual position the index of its logical
  character, and the level of each logical character.  \<open>mfont__encode_char\<close> (font.c)
  is the parameter \<open>encode_char\<close>.
\<close>

type_synonym bidi_engine = "int list \<Rightarrow> bool \<Rightarrow> int list \<times> nat list \<times> int list"

text \<open>
  The body of the last loop for one cluster, on the glyph \<open>glyphs[k]\<close> and the glyphs
  after it that the inner loop takes: each gets the level, and the first is mirrored
  when \<open>visual[i] != logical[j]\<close>.
\<close>

definition written_cluster ::
  "(MRealizedFont \<Rightarrow> int \<Rightarrow> int) \<Rightarrow> int \<Rightarrow> int \<Rightarrow> int \<Rightarrow> MGlyph \<Rightarrow> MGlyph list \<Rightarrow> MGlyph list" where
  "written_cluster encode_char level logical_c visual_c base marks =
     (let base1 = base\<lparr>bidi_level := level\<rparr>;
          base2 = (if visual_c \<noteq> logical_c
                   then (let base3 = base1\<lparr>gchar := visual_c\<rparr>
                         in case rfont (rface base3) of
                              Some f \<Rightarrow> base3\<lparr>gcode := encode_char f (gchar base3)\<rparr>
                            | None \<Rightarrow> base3)
                   else base1)
      in base2 # map (\<lambda>g. g\<lparr>bidi_level := level\<rparr>) marks)"

text \<open>
  The last loop, \<open>for (i = 0, gidx = 1; i < size; i++)\<close>, on the pairs
  \<open>(indices[i], visual[i])\<close> that are left: \<open>copy\<close> is the array \<open>glyphs\<close>,
  the copy that the loop reads and changes, and the result is what it writes to the
  buffer from \<open>gidx\<close> on.
\<close>

fun write_visual ::
  "(MRealizedFont \<Rightarrow> int \<Rightarrow> int) \<Rightarrow> nat list \<Rightarrow> int list \<Rightarrow> int list \<Rightarrow> MGlyph list
   \<Rightarrow> (nat \<times> int) list \<Rightarrow> MGlyph list" where
  "write_visual encode_char idx logical levels copy [] = []"
| "write_visual encode_char idx logical levels copy ((j, v) # rest) =
     (let k = idx ! j;
          cluster = written_cluster encode_char (levels ! j) (logical ! j) v (copy ! k)
                      (takeWhile (\<lambda>g. combining_code g \<noteq> 0) (drop (Suc k) (butlast copy)));
          copy1 = take k copy @ cluster @ drop (k + length cluster) copy
      in cluster @ write_visual encode_char idx logical levels copy1 rest)"

definition visual_order_fribidi ::
  "bidi_engine \<Rightarrow> (MRealizedFont \<Rightarrow> int \<Rightarrow> int) \<Rightarrow> (int \<Rightarrow> MSymbol) \<Rightarrow> MGlyphString
   \<Rightarrow> MGlyphString" where
  "visual_order_fribidi log2vis encode_char bidi_category gstring =
     (let entries = collect_logical bidi_category 1 (drop 1 (glyphs gstring));
          idx = map fst entries;
          logical = map (\<lambda>e. fst (snd e)) entries;
          size = length entries;
          bidi_sensitive = (orientation_reversed (control gstring)
                            \<or> list_ex (\<lambda>l. l \<noteq> 0) (map (\<lambda>e. snd (snd e)) entries))
      in if \<not> bidi_sensitive then gstring
         else (case log2vis logical (orientation_reversed (control gstring)) of
                 (visual, indices, levels) \<Rightarrow>
                   (let written = write_visual encode_char idx logical levels (glyphs gstring)
                                    (map (\<lambda>i. (indices ! i, visual ! i)) [0..<size])
                    in gstring\<lparr>glyphs := take 1 (glyphs gstring) @ written
                                          @ drop (1 + length written) (glyphs gstring)\<rparr>)))"

text \<open>
  A glyph without what the pass writes with FriBidi: the level, and the character and
  the code of a mirrored glyph.
\<close>

definition without_level_char :: "MGlyph \<Rightarrow> MGlyph" where
  "without_level_char g = g\<lparr>bidi_level := 0, gchar := 0, gcode := 0\<rparr>"

text \<open>
  Samples.  An engine for the samples, which answers as FriBidi does for right-to-left
  letters and parentheses under a right-to-left base direction: every level is 1, the
  order is reversed and the parentheses are mirrored.  A font that encodes a character
  by itself.  The text alef, \<open>(\<close> with \<open>orientation_reversed\<close>.
\<close>

definition sample_mirror :: "int \<Rightarrow> int" where
  "sample_mirror ch = (if ch = 40 then 41 else if ch = 41 then 40 else ch)"

definition sample_log2vis :: bidi_engine where
  "sample_log2vis logical rtl =
     (map sample_mirror (rev logical), rev [0..<length logical], map (\<lambda>ch. 1) logical)"

definition sample_encode_char :: "MRealizedFont \<Rightarrow> int \<Rightarrow> int" where
  "sample_encode_char f ch = ch"

definition alef_paren :: MGlyphString where
  "alef_paren = (sample_gstring
     [anchor_glyph 0, char_glyph GLYPH_CHAR 0x5D0 0, char_glyph GLYPH_CHAR 40 1,
      anchor_glyph 2] 0 2)\<lparr>control := sample_control\<lparr>orientation_reversed := True\<rparr>\<rparr>"

section \<open>Theorems\<close>

lemmas sample_defs = sample_gstring_def sample_control_def char_glyph_def anchor_glyph_def
  mark_glyph_def sample_face_def Mnil_def MCHAR_INVALID_CODE_def

subsection \<open>The default line-break policy\<close>

lemma skip_forward_bounds:
  "pos \<le> to \<Longrightarrow> pos \<le> skip_forward mt to pos \<and> skip_forward mt to pos \<le> to"
proof (induction mt to pos rule: skip_forward.induct)
  case (1 mt to pos)
  show ?case
  proof (cases "pos < to \<and> space_or_tab (mtext_ref_char mt pos)")
    case True
    then have "pos + 1 \<le> to" by simp
    moreover have "skip_forward mt to pos = skip_forward mt to (pos + 1)"
      using True by (subst skip_forward.simps) simp
    ultimately show ?thesis using "1.IH"[OF True] by simp
  next
    case False
    then have "skip_forward mt to pos = pos"
      by (subst skip_forward.simps) (simp only: if_False)
    with "1.prems" show ?thesis by simp
  qed
qed

lemma skip_forward_all_space:
  "pos \<le> p \<Longrightarrow> p < skip_forward mt to pos \<Longrightarrow> space_or_tab (mtext_ref_char mt p)"
proof (induction mt to pos rule: skip_forward.induct)
  case (1 mt to pos)
  show ?case
  proof (cases "pos < to \<and> space_or_tab (mtext_ref_char mt pos)")
    case True
    have eq: "skip_forward mt to pos = skip_forward mt to (pos + 1)"
      using True by (subst skip_forward.simps) simp
    show ?thesis
    proof (cases "p = pos")
      case True
      with \<open>pos < to \<and> space_or_tab (mtext_ref_char mt pos)\<close> show ?thesis by simp
    next
      case False
      with "1.prems" have "pos + 1 \<le> p" by simp
      from "1.IH"[OF True this] "1.prems"(2) show ?thesis unfolding eq by simp
    qed
  next
    case False
    then have "skip_forward mt to pos = pos"
      by (subst skip_forward.simps) (simp only: if_False)
    with "1.prems" show ?thesis by simp
  qed
qed

lemma skip_forward_stops:
  "skip_forward mt to pos < to \<Longrightarrow>
     \<not> space_or_tab (mtext_ref_char mt (skip_forward mt to pos))"
proof (induction mt to pos rule: skip_forward.induct)
  case (1 mt to pos)
  show ?case
  proof (cases "pos < to \<and> space_or_tab (mtext_ref_char mt pos)")
    case True
    have eq: "skip_forward mt to pos = skip_forward mt to (pos + 1)"
      using True by (subst skip_forward.simps) simp
    from "1.IH"[OF True] "1.prems" show ?thesis unfolding eq by simp
  next
    case False
    then have eq: "skip_forward mt to pos = pos"
      by (subst skip_forward.simps) (simp only: if_False)
    with "1.prems" False show ?thesis by simp
  qed
qed

lemma walk_backward_bounds:
  "from \<le> pos \<Longrightarrow> from \<le> walk_backward mt from pos c \<and> walk_backward mt from pos c \<le> pos"
proof (induction mt "from" pos c rule: walk_backward.induct)
  case (1 mt "from" pos c)
  show ?case
  proof (cases "pos > from \<and> \<not> space_or_tab c")
    case True
    then have c1: "from < pos" and c2: "\<not> space_or_tab c" by simp_all
    have eq: "walk_backward mt from pos c
                = walk_backward mt from (pos - 1) (mtext_ref_char mt (pos - 1))"
      using True by (subst walk_backward.simps) simp
    from c1 have "from \<le> pos - 1" by simp
    from "1.IH"[OF c1 c2 this] show ?thesis unfolding eq by simp
  next
    case False
    then have "walk_backward mt from pos c = pos"
      by (subst walk_backward.simps) auto
    with "1.prems" show ?thesis by simp
  qed
qed

lemma walk_backward_no_space_above:
  "c = mtext_ref_char mt pos \<Longrightarrow> walk_backward mt from pos c < q \<Longrightarrow> q \<le> pos
     \<Longrightarrow> \<not> space_or_tab (mtext_ref_char mt q)"
proof (induction mt "from" pos c arbitrary: q rule: walk_backward.induct)
  case (1 mt "from" pos c)
  show ?case
  proof (cases "pos > from \<and> \<not> space_or_tab c")
    case True
    then have c1: "from < pos" and c2: "\<not> space_or_tab c" by simp_all
    have eq: "walk_backward mt from pos c
                = walk_backward mt from (pos - 1) (mtext_ref_char mt (pos - 1))"
      using True by (subst walk_backward.simps) simp
    show ?thesis
    proof (cases "q = pos")
      case True
      with c2 "1.prems"(1) show ?thesis by simp
    next
      case False
      with "1.prems"(3) have "q \<le> pos - 1" by simp
      from "1.IH"[OF c1 c2 refl _ this] "1.prems"(2) show ?thesis unfolding eq by simp
    qed
  next
    case False
    then have "walk_backward mt from pos c = pos"
      by (subst walk_backward.simps) auto
    with "1.prems" show ?thesis by simp
  qed
qed

lemma walk_backward_at_space:
  "c = mtext_ref_char mt pos \<Longrightarrow> from < walk_backward mt from pos c
     \<Longrightarrow> space_or_tab (mtext_ref_char mt (walk_backward mt from pos c))"
proof (induction mt "from" pos c rule: walk_backward.induct)
  case (1 mt "from" pos c)
  show ?case
  proof (cases "pos > from \<and> \<not> space_or_tab c")
    case True
    then have c1: "from < pos" and c2: "\<not> space_or_tab c" by simp_all
    have eq: "walk_backward mt from pos c
                = walk_backward mt from (pos - 1) (mtext_ref_char mt (pos - 1))"
      using True by (subst walk_backward.simps) simp
    from "1.IH"[OF c1 c2 refl] "1.prems"(2) show ?thesis unfolding eq by simp
  next
    case False
    then have eq: "walk_backward mt from pos c = pos"
      by (subst walk_backward.simps) auto
    from "1.prems"(2) have "from < pos" unfolding eq .
    with False have "space_or_tab c" by simp
    with "1.prems"(1) show ?thesis unfolding eq by simp
  qed
qed

text \<open>
  Claim C2, as amended.  For \<open>from \<le> pos < to\<close>: when the character at \<open>pos\<close> is a
  space or a tab, the result is the first position after \<open>pos\<close> whose character is
  neither, bounded by \<open>to\<close>.  Otherwise the backward walk looks at the positions
  strictly between \<open>from\<close> and \<open>pos\<close> only: when one of them holds a space or a
  tab, the result is the position right after the nearest one; when none does, the
  result is \<open>pos\<close>, whatever the character at \<open>from\<close> itself is.
\<close>

theorem mdraw_default_line_break_policy:
  assumes "from \<le> pos" and "pos < to"
  shows "(space_or_tab (mtext_ref_char mt pos) \<longrightarrow>
            pos < mdraw_default_line_break mt pos from to line y
          \<and> mdraw_default_line_break mt pos from to line y \<le> to
          \<and> (\<forall>p. pos \<le> p \<and> p < mdraw_default_line_break mt pos from to line y
                 \<longrightarrow> space_or_tab (mtext_ref_char mt p))
          \<and> (mdraw_default_line_break mt pos from to line y < to
                 \<longrightarrow> \<not> space_or_tab (mtext_ref_char mt
                                       (mdraw_default_line_break mt pos from to line y))))
       \<and> (\<not> space_or_tab (mtext_ref_char mt pos) \<longrightarrow>
            (if \<exists>p. from < p \<and> p < pos \<and> space_or_tab (mtext_ref_char mt p)
             then \<exists>p. from < p \<and> p < pos \<and> space_or_tab (mtext_ref_char mt p)
                    \<and> (\<forall>q. p < q \<and> q < pos \<longrightarrow> \<not> space_or_tab (mtext_ref_char mt q))
                    \<and> mdraw_default_line_break mt pos from to line y = p + 1
             else mdraw_default_line_break mt pos from to line y = pos))"
proof (intro conjI impI)
  assume sp: "space_or_tab (mtext_ref_char mt pos)"
  then have eq: "mdraw_default_line_break mt pos from to line y = skip_forward mt to (pos + 1)"
    by (simp add: mdraw_default_line_break_def)
  from assms have le: "pos + 1 \<le> to" by simp
  from skip_forward_bounds[OF le, of mt]
  show "pos < mdraw_default_line_break mt pos from to line y"
    and "mdraw_default_line_break mt pos from to line y \<le> to"
    unfolding eq by simp_all
  show "\<forall>p. pos \<le> p \<and> p < mdraw_default_line_break mt pos from to line y
           \<longrightarrow> space_or_tab (mtext_ref_char mt p)"
  proof (intro allI impI)
    fix p assume p: "pos \<le> p \<and> p < mdraw_default_line_break mt pos from to line y"
    show "space_or_tab (mtext_ref_char mt p)"
    proof (cases "p = pos")
      case True with sp show ?thesis by simp
    next
      case False
      with p have "pos + 1 \<le> p" by simp
      moreover from p have "p < skip_forward mt to (pos + 1)" unfolding eq by simp
      ultimately show ?thesis by (rule skip_forward_all_space)
    qed
  qed
  show "\<not> space_or_tab (mtext_ref_char mt (mdraw_default_line_break mt pos from to line y))"
    if "mdraw_default_line_break mt pos from to line y < to"
    using that skip_forward_stops[of mt to "pos + 1"] unfolding eq by simp
next
  assume nsp: "\<not> space_or_tab (mtext_ref_char mt pos)"
  define r where "r = walk_backward mt from pos (mtext_ref_char mt pos)"
  have res: "mdraw_default_line_break mt pos from to line y = (if r = from then pos else r + 1)"
    using nsp by (simp add: mdraw_default_line_break_def r_def Let_def)
  have bounds: "from \<le> r" "r \<le> pos"
    using walk_backward_bounds[OF assms(1), of mt "mtext_ref_char mt pos"] by (simp_all add: r_def)
  have above: "\<not> space_or_tab (mtext_ref_char mt q)" if "r < q" "q \<le> pos" for q
    using walk_backward_no_space_above[OF refl, of mt "from" pos q] that by (simp add: r_def)
  have at: "space_or_tab (mtext_ref_char mt r)" if "from < r"
    using walk_backward_at_space[OF refl, of "from" mt pos] that by (simp add: r_def)
  show "if \<exists>p. from < p \<and> p < pos \<and> space_or_tab (mtext_ref_char mt p)
        then \<exists>p. from < p \<and> p < pos \<and> space_or_tab (mtext_ref_char mt p)
               \<and> (\<forall>q. p < q \<and> q < pos \<longrightarrow> \<not> space_or_tab (mtext_ref_char mt q))
               \<and> mdraw_default_line_break mt pos from to line y = p + 1
        else mdraw_default_line_break mt pos from to line y = pos"
  proof (cases "r = from")
    case True
    then have nex: "\<not> (\<exists>p. from < p \<and> p < pos \<and> space_or_tab (mtext_ref_char mt p))"
      using above by auto
    from True res have "mdraw_default_line_break mt pos from to line y = pos" by simp
    then show ?thesis unfolding if_not_P[OF nex] .
  next
    case False
    with bounds have gt: "from < r" by simp
    from at[OF gt] nsp bounds have lt: "r < pos" by (cases "r = pos") auto
    have found: "from < r \<and> r < pos \<and> space_or_tab (mtext_ref_char mt r)
          \<and> (\<forall>q. p < q \<and> q < pos \<longrightarrow> \<not> space_or_tab (mtext_ref_char mt q))
          \<and> mdraw_default_line_break mt pos from to line y = r + 1" if "p = r" for p
      using gt lt at[OF gt] above res False that by auto
    have ex: "\<exists>p. from < p \<and> p < pos \<and> space_or_tab (mtext_ref_char mt p)"
      using found[OF refl] by blast
    show ?thesis unfolding if_P[OF ex] using found[OF refl] by blast
  qed
qed

text \<open>The theorem at the text \<open>hello world foo\<close>, overflowing at position 7.\<close>

theorem mdraw_default_line_break_policy_witness:
  "(0::int) \<le> 7 \<and> (7::int) < 15 
   \<and> \<not> space_or_tab (mtext_ref_char (text_of ''hello world foo'') 7)
   \<and> mdraw_default_line_break (text_of ''hello world foo'') 7 0 15 0 0 = 6"
  using mdraw_default_line_break_policy[of 0 7 15 "text_of ''hello world foo''" 0 0]
  by (simp add: mdraw_default_line_break_def text_of_def mtext_ref_char_def space_or_tab_def
      skip_forward.simps walk_backward.simps)

text \<open>
  Claim C2 as stated fails when the only whitespace of \<open>[from, pos)\<close> is at
  \<open>from\<close>: in the text \<open>" abc"\<close> with \<open>from = 0\<close> and \<open>pos = 3\<close> the claim asks
  for position 1, and the walk stops at \<open>pos == from\<close> without testing the character
  there, so the result is 3.
\<close>

theorem mdraw_default_line_break_space_at_from:
  "space_or_tab (mtext_ref_char (text_of '' abc'') 0)
   \<and> \<not> space_or_tab (mtext_ref_char (text_of '' abc'') 3)
   \<and> mdraw_default_line_break (text_of '' abc'') 3 0 4 0 0 = 3"
  by (simp add: mdraw_default_line_break_def text_of_def mtext_ref_char_def space_or_tab_def
      skip_forward.simps walk_backward.simps)

subsection \<open>Unfolding the loop of layout\_glyph\_string\<close>

lemmas run_defs = layout_char_run_def scan_run.simps run_break_def pad_left_def pad_right_def
  add_run_def layout_glyphs_def layout_clusters.simps layout_single_def add_to_totals_def
  mfont_get_metric_def set_metric_def MGLYPH_def used_def INSERT_GLYPH_def set_glyph_def

lemmas space_defs = layout_space_def space_glyph_width_def absorb_pad_def advance_def
  MGLYPH_def set_glyph_def

lemma loop_continues:
  "ls_g st < used (ls_gstring st)
     \<and> gtype (MGLYPH (ls_gstring st) (ls_g st)) \<noteq> GLYPH_ANCHOR
   \<Longrightarrow> layout_loop find_metric frame st
       = layout_loop find_metric frame (layout_step find_metric frame st)"
  by (subst layout_loop.simps) (rule if_P)

lemma loop_stops:
  "\<not> (ls_g st < used (ls_gstring st)
        \<and> gtype (MGLYPH (ls_gstring st) (ls_g st)) \<noteq> GLYPH_ANCHOR)
   \<Longrightarrow> layout_loop find_metric frame st = st"
  by (subst layout_loop.simps) (rule if_not_P)

subsection \<open>Glyphs that a round of the loop leaves alone\<close>

lemma nth_insert_before:
  "i < at \<Longrightarrow> i < length xs \<Longrightarrow> (take at xs @ g # drop at xs) ! i = xs ! i"
  by (simp add: nth_append)

lemma nth_insert_after:
  "at \<le> length xs \<Longrightarrow> (take at xs @ g # drop at xs) ! Suc at = xs ! at"
  by (simp add: nth_append min_def)

lemma MGLYPH_INSERT_before:
  "i < at \<Longrightarrow> i < used gs \<Longrightarrow> MGLYPH (INSERT_GLYPH gs at g) i = MGLYPH gs i"
  by (simp add: MGLYPH_def INSERT_GLYPH_def used_def nth_append)

lemma MGLYPH_INSERT_after:
  "at \<le> used gs \<Longrightarrow> MGLYPH (INSERT_GLYPH gs at g) (Suc at) = MGLYPH gs at"
  by (simp add: MGLYPH_def INSERT_GLYPH_def used_def nth_append min_def)

lemma MGLYPH_advance: "MGLYPH (advance gs w) i = MGLYPH gs i"
  by (simp add: MGLYPH_def advance_def)

lemma MGLYPH_set_glyph_other: "i \<noteq> j \<Longrightarrow> MGLYPH (set_glyph gs j g) i = MGLYPH gs i"
  by (simp add: MGLYPH_def set_glyph_def)

lemma MGLYPH_set_glyph_same: "j < used gs \<Longrightarrow> MGLYPH (set_glyph gs j g) j = g"
  by (simp add: MGLYPH_def set_glyph_def used_def)

lemma insert_box_edges_before:
  assumes "ls_g st < used (ls_gstring st)" and "i < ls_g st"
  shows "MGLYPH (ls_gstring (insert_box_edges frame st)) i = MGLYPH (ls_gstring st) i"
  using assms
  by (auto simp: insert_box_edges_def Let_def MGLYPH_INSERT_before MGLYPH_advance
        length_INSERT_GLYPH used_advance split: option.splits)

lemma insert_box_edges_same:
  assumes "ls_g st < used (ls_gstring st)"
  shows "MGLYPH (ls_gstring (insert_box_edges frame st)) (ls_g (insert_box_edges frame st))
           = MGLYPH (ls_gstring st) (ls_g st)"
  using assms
  by (auto simp: insert_box_edges_def Let_def MGLYPH_INSERT_after MGLYPH_advance
        length_INSERT_GLYPH used_advance split: option.splits)

lemma insert_box_edges_g:
  "ls_g st \<le> ls_g (insert_box_edges frame st)"
  by (auto simp: insert_box_edges_def Let_def split: option.splits)

lemma insert_box_edges_moves:
  assumes "ls_g st < used (ls_gstring st)"
    and "ls_box st \<noteq> box (rface (MGLYPH (ls_gstring st) (ls_g st)))"
  shows "ls_g st < ls_g (insert_box_edges frame st)"
  using assms
  by (auto simp: insert_box_edges_def Let_def MGLYPH_INSERT_after MGLYPH_advance
        length_INSERT_GLYPH used_advance split: option.splits)

lemma insert_box_edges_stays:
  "ls_box st = box (rface (MGLYPH (ls_gstring st) (ls_g st)))
   \<Longrightarrow> insert_box_edges frame st = st"
  by (simp add: insert_box_edges_def Let_def)

lemma insert_box_edges_box:
  assumes "ls_g st < used (ls_gstring st)"
  shows "ls_box (insert_box_edges frame st)
           = box (rface (MGLYPH (ls_gstring st) (ls_g st)))"
  using assms
  by (auto simp: insert_box_edges_def Let_def MGLYPH_INSERT_after MGLYPH_advance
        length_INSERT_GLYPH used_advance split: option.splits)

lemma MGLYPH_layout_glyphs_before:
  "i < from \<Longrightarrow> from \<le> used gs \<Longrightarrow>
     MGLYPH (layout_glyphs find_metric gs from to) i = MGLYPH gs i"
  by (simp add: layout_glyphs_def MGLYPH_def used_def nth_append split: prod.splits)

lemma MGLYPH_layout_no_font_before:
  "i < from \<Longrightarrow> MGLYPH (layout_no_font rf gs from n) i = MGLYPH gs i"
  by (induction n arbitrary: gs "from")
     (simp_all add: Let_def MGLYPH_advance MGLYPH_set_glyph_other)

lemma MGLYPH_add_run: "MGLYPH (add_run gs rf) i = MGLYPH gs i"
  by (simp add: add_run_def Let_def MGLYPH_def)

lemma pad_right_before:
  "i + 1 < to \<Longrightarrow> to \<le> used gs \<Longrightarrow>
     MGLYPH (fst (pad_right gs bx to)) i = MGLYPH gs i"
  by (simp add: pad_right_def Let_def MGLYPH_def used_def INSERT_GLYPH_def set_glyph_def
        nth_append split: prod.splits)

lemma pad_left_before:
  "i + 1 < from \<Longrightarrow> from \<le> used gs \<Longrightarrow>
     MGLYPH (fst (pad_left gs from to)) i = MGLYPH gs i"
  by (simp add: pad_left_def Let_def MGLYPH_def used_def INSERT_GLYPH_def set_glyph_def
        nth_append)

text \<open>What the left padding of a run does to a space glyph in front of the run.\<close>

lemma pad_left_space:
  assumes "Suc i = from" and "from \<le> used gs" and "gtype (MGLYPH gs i) = GLYPH_SPACE"
  shows "MGLYPH (fst (pad_left gs from to)) i
           = (if - sub_lbearing gs > 0 \<and> (to > 1 \<or> align_head (control gs))
              then (MGLYPH gs i)\<lparr>gwidth :=
                     (if - sub_lbearing gs + 2 < gwidth (MGLYPH gs i)
                      then gwidth (MGLYPH gs i) - (- sub_lbearing gs) else 2)\<rparr>
              else MGLYPH gs i)"
  using assms
  by (auto simp: pad_left_def Let_def MGLYPH_def used_def INSERT_GLYPH_def set_glyph_def
        nth_append)

lemma layout_char_run_cases:
  assumes inside: "ls_g st < used (ls_gstring st)"
  shows "ls_g st < ls_g (layout_char_run find_metric frame st)
       \<and> ls_g (layout_char_run find_metric frame st)
           \<le> used (ls_gstring (layout_char_run find_metric frame st))
       \<and> (\<forall>i. i + 1 < ls_g st \<longrightarrow>
             MGLYPH (ls_gstring (layout_char_run find_metric frame st)) i
               = MGLYPH (ls_gstring st) i)
       \<and> (\<forall>i. Suc i = ls_g st \<and> gtype (MGLYPH (ls_gstring st) i) = GLYPH_SPACE \<longrightarrow>
             MGLYPH (ls_gstring (layout_char_run find_metric frame st)) i
               = (let nxt = MGLYPH (ls_gstring st) (ls_g st);
                      to = scan_run (ls_gstring st) (ls_box st) nxt (ls_g st + 1);
                      extra = - sub_lbearing
                                  (layout_glyphs find_metric (ls_gstring st) (ls_g st) to)
                  in if rfont (rface nxt) \<noteq> None \<and> gcode nxt \<noteq> MCHAR_INVALID_CODE
                        \<and> extra > 0
                     then (MGLYPH (ls_gstring st) i)\<lparr>gwidth :=
                            (if extra + 2 < gwidth (MGLYPH (ls_gstring st) i)
                             then gwidth (MGLYPH (ls_gstring st) i) - extra else 2)\<rparr>
                     else MGLYPH (ls_gstring st) i))"
proof -
  define gs where "gs = ls_gstring st"
  define "from" where "from = ls_g st"
  define to where "to = scan_run gs (ls_box st) (MGLYPH gs from) (from + 1)"
  have f: "from < used gs" using inside by (simp add: gs_def from_def)
  then have "from + 1 \<le> used gs" by simp
  from scan_run_bounds[OF this, of "ls_box st" "MGLYPH gs from"]
  have to: "from < to" "to \<le> used gs" by (simp_all add: to_def)
  show ?thesis
  proof (cases "rfont (rface (MGLYPH gs from)) \<noteq> None
                \<and> gcode (MGLYPH gs from) \<noteq> MCHAR_INVALID_CODE")
    case True
    define gs1 where "gs1 = layout_glyphs find_metric gs from to"
    define p where "p = pad_left gs1 from to"
    define q where "q = pad_right (fst p) (ls_box st) (snd p)"
    have u1: "used gs1 = used gs"
      using to by (simp add: gs1_def used_layout_glyphs)
    have f1: "from \<le> used gs1" using f u1 by simp
    have pm: "snd p \<le> used (fst p)" "to \<le> snd p"
      using pad_left_measure[of "from" to gs1] to u1 by (simp_all add: p_def)
    have qm: "snd q \<le> used (fst q)" "snd p \<le> snd q"
      using pad_right_measure[OF pm(1), of "ls_box st"] by (simp_all add: q_def)
    have res: "layout_char_run find_metric frame st
        = st\<lparr>ls_gstring := add_run (fst q) (rface (MGLYPH gs from)), ls_g := snd q\<rparr>"
      using True
      by (simp add: layout_char_run_def Let_def case_prod_beta gs_def from_def
            to_def gs1_def p_def q_def)
    have b: "ls_g st < ls_g (layout_char_run find_metric frame st)
       \<and> ls_g (layout_char_run find_metric frame st)
           \<le> used (ls_gstring (layout_char_run find_metric frame st))"
      unfolding res using qm pm to by (simp add: used_add_run from_def[symmetric])
    have q_keep: "MGLYPH (add_run (fst q) (rface (MGLYPH gs from))) i = MGLYPH (fst p) i"
      if "i < from" for i
    proof -
      have "i + 1 < snd p" using that to pm(2) by simp
      from pad_right_before[OF this pm(1), of "ls_box st"] show ?thesis
        by (simp add: MGLYPH_add_run q_def)
    qed
    have far: "MGLYPH (ls_gstring (layout_char_run find_metric frame st)) i
               = MGLYPH (ls_gstring st) i" if "i + 1 < ls_g st" for i
    proof -
      have i: "i + 1 < from" "i < from" using that by (simp_all add: from_def)
      have "MGLYPH (fst p) i = MGLYPH gs1 i"
        using pad_left_before[OF i(1) f1, of to] by (simp add: p_def)
      also have "\<dots> = MGLYPH gs i"
        using MGLYPH_layout_glyphs_before[OF i(2), of gs find_metric to] f
        by (simp add: gs1_def)
      finally show ?thesis unfolding res using q_keep[OF i(2)] by (simp add: gs_def)
    qed
    have prev: "MGLYPH (ls_gstring (layout_char_run find_metric frame st)) i
               = (if - sub_lbearing gs1 > 0
                  then (MGLYPH gs i)\<lparr>gwidth :=
                         (if - sub_lbearing gs1 + 2 < gwidth (MGLYPH gs i)
                          then gwidth (MGLYPH gs i) - (- sub_lbearing gs1) else 2)\<rparr>
                  else MGLYPH gs i)"
      if "Suc i = ls_g st" and sp: "gtype (MGLYPH (ls_gstring st) i) = GLYPH_SPACE" for i
    proof -
      have i: "Suc i = from" "i < from" using that by (simp_all add: from_def)
      have same: "MGLYPH gs1 i = MGLYPH gs i"
        using MGLYPH_layout_glyphs_before[OF i(2), of gs find_metric to] f
        by (simp add: gs1_def)
      have sp1: "gtype (MGLYPH gs1 i) = GLYPH_SPACE" using sp same by (simp add: gs_def)
      have t1: "to > 1" using to i by simp
      have "MGLYPH (fst p) i
           = (if - sub_lbearing gs1 > 0
              then (MGLYPH gs1 i)\<lparr>gwidth :=
                     (if - sub_lbearing gs1 + 2 < gwidth (MGLYPH gs1 i)
                      then gwidth (MGLYPH gs1 i) - (- sub_lbearing gs1) else 2)\<rparr>
              else MGLYPH gs1 i)"
        using pad_left_space[OF i(1) f1 sp1, of to] t1 by (simp add: p_def)
      then show ?thesis unfolding res using q_keep[OF i(2)] by (simp add: same)
    qed
    from b far prev True show ?thesis
      unfolding Let_def gs1_def to_def gs_def from_def by simp
  next
    case False
    then have nf: "rfont (rface (MGLYPH gs from)) = None
        \<or> gcode (MGLYPH gs from) = MCHAR_INVALID_CODE"
      by simp
    define gs1 where "gs1 = layout_no_font (rface (MGLYPH gs from)) gs from (to - from)"
    from nf have g: "ls_g (layout_char_run find_metric frame st) = to"
      by (elim disjE) (simp_all add: layout_char_run_def Let_def gs_def from_def to_def)
    from nf have u: "used (ls_gstring (layout_char_run find_metric frame st)) = used gs"
      by (elim disjE)
         (simp_all add: layout_char_run_def Let_def gs_def from_def to_def used_def
            used_layout_no_font[unfolded used_def])
    from nf have k: "MGLYPH (ls_gstring (layout_char_run find_metric frame st)) i
        = MGLYPH gs1 i" for i
      by (elim disjE)
         (simp_all add: layout_char_run_def Let_def gs_def from_def to_def gs1_def MGLYPH_def)
    have keep: "MGLYPH (ls_gstring (layout_char_run find_metric frame st)) i
        = MGLYPH (ls_gstring st) i" if "i < ls_g st" for i
      unfolding k gs1_def using that
      by (simp add: MGLYPH_layout_no_font_before from_def gs_def)
    from g u to keep False show ?thesis
      unfolding Let_def to_def gs_def from_def by auto
  qed
qed

lemma layout_space_cases:
  assumes "ls_g st < used (ls_gstring st)"
  shows "ls_g (layout_space frame st) = ls_g st + 1
       \<and> used (ls_gstring (layout_space frame st)) = used (ls_gstring st)
       \<and> (\<forall>i. i < ls_g st \<longrightarrow>
             MGLYPH (ls_gstring (layout_space frame st)) i = MGLYPH (ls_gstring st) i)"
  using assms
  by (simp add: layout_space_def Let_def used_def advance_def set_glyph_def MGLYPH_def)

lemma layout_other_cases:
  "ls_g (layout_other st) = ls_g st + 1
   \<and> used (ls_gstring (layout_other st)) = used (ls_gstring st)
   \<and> MGLYPH (ls_gstring (layout_other st)) i = MGLYPH (ls_gstring st) i"
  by (simp add: layout_other_def used_def advance_def MGLYPH_def)

text \<open>A round of the loop at a glyph of the current box.\<close>

lemma layout_step_same_box:
  assumes inside: "ls_g st < used (ls_gstring st)"
    and same_box: "ls_box st = box (rface (MGLYPH (ls_gstring st) (ls_g st)))"
  shows "ls_g st < ls_g (layout_step find_metric frame st)
       \<and> ls_g (layout_step find_metric frame st)
           \<le> used (ls_gstring (layout_step find_metric frame st))
       \<and> (\<forall>i. i + 1 < ls_g st \<longrightarrow>
             MGLYPH (ls_gstring (layout_step find_metric frame st)) i
               = MGLYPH (ls_gstring st) i)
       \<and> (\<forall>i. Suc i = ls_g st \<and> gtype (MGLYPH (ls_gstring st) i) = GLYPH_SPACE \<longrightarrow>
             MGLYPH (ls_gstring (layout_step find_metric frame st)) i
               = (let nxt = MGLYPH (ls_gstring st) (ls_g st);
                      to = scan_run (ls_gstring st) (ls_box st) nxt (ls_g st + 1);
                      extra = - sub_lbearing
                                  (layout_glyphs find_metric (ls_gstring st) (ls_g st) to)
                  in if gtype nxt = GLYPH_CHAR
                        \<and> \<not> (category nxt = McatCf
                              \<and> ignore_formatting_char (control (ls_gstring st)))
                        \<and> rfont (rface nxt) \<noteq> None \<and> gcode nxt \<noteq> MCHAR_INVALID_CODE
                        \<and> extra > 0
                     then (MGLYPH (ls_gstring st) i)\<lparr>gwidth :=
                            (if extra + 2 < gwidth (MGLYPH (ls_gstring st) i)
                             then gwidth (MGLYPH (ls_gstring st) i) - extra else 2)\<rparr>
                     else MGLYPH (ls_gstring st) i))"
proof -
  have ibe: "insert_box_edges frame st = st"
    using same_box by (rule insert_box_edges_stays)
  show ?thesis
  proof (cases "category (MGLYPH (ls_gstring st) (ls_g st)) = McatCf
                  \<and> ignore_formatting_char (control (ls_gstring st))")
    case True
    define st2 where "st2 = st\<lparr>ls_gstring := set_glyph (ls_gstring st) (ls_g st)
                        ((MGLYPH (ls_gstring st) (ls_g st))\<lparr>gtype := GLYPH_SPACE\<rparr>)\<rparr>"
    have i2: "ls_g st2 < used (ls_gstring st2)" "ls_g st2 = ls_g st"
      "used (ls_gstring st2) = used (ls_gstring st)"
      using inside by (simp_all add: st2_def used_set_glyph)
    have t2: "gtype (MGLYPH (ls_gstring st2) (ls_g st2)) = GLYPH_SPACE"
      using inside by (simp add: st2_def MGLYPH_set_glyph_same)
    have k2: "MGLYPH (ls_gstring st2) i = MGLYPH (ls_gstring st) i" if "i < ls_g st" for i
      using that by (simp add: st2_def MGLYPH_set_glyph_other)
    have step: "layout_step find_metric frame st = layout_space frame st2"
      using True t2 by (simp add: layout_step_def Let_def ibe st2_def[symmetric])
    from layout_space_cases[OF i2(1), of frame] i2 k2 True show ?thesis
      unfolding step by (auto simp: Let_def)
  next
    case False
    have step: "layout_step find_metric frame st
      = (if gtype (MGLYPH (ls_gstring st) (ls_g st)) = GLYPH_CHAR
         then layout_char_run find_metric frame st
         else if gtype (MGLYPH (ls_gstring st) (ls_g st)) = GLYPH_SPACE
         then layout_space frame st else layout_other st)"
      using False by (auto simp: layout_step_def Let_def ibe)
    show ?thesis
    proof (cases "gtype (MGLYPH (ls_gstring st) (ls_g st)) = GLYPH_CHAR")
      case True
      from layout_char_run_cases[OF inside, of find_metric frame] True False show ?thesis
        unfolding step Let_def by simp
    next
      case nc: False
      show ?thesis
      proof (cases "gtype (MGLYPH (ls_gstring st) (ls_g st)) = GLYPH_SPACE")
        case True
        from layout_space_cases[OF inside, of frame] nc True inside show ?thesis
          unfolding step Let_def by auto
      next
        case False
        from layout_other_cases[of st] nc False inside show ?thesis
          unfolding step Let_def by auto
      qed
    qed
  qed
qed

text \<open>A round of the loop, with the box edges that it may insert first.\<close>

lemma layout_step_after_box_edges:
  assumes inside: "ls_g st < used (ls_gstring st)"
  shows "layout_step find_metric frame st
           = layout_step find_metric frame (insert_box_edges frame st)"
proof -
  have "ls_box (insert_box_edges frame st)
          = box (rface (MGLYPH (ls_gstring (insert_box_edges frame st))
                          (ls_g (insert_box_edges frame st))))"
    using insert_box_edges_box[OF inside, of frame] insert_box_edges_same[OF inside, of frame]
    by simp
  then have "insert_box_edges frame (insert_box_edges frame st) = insert_box_edges frame st"
    by (rule insert_box_edges_stays)
  then show ?thesis by (simp add: layout_step_def)
qed

lemma layout_step_cases:
  assumes inside: "ls_g st < used (ls_gstring st)"
  shows "ls_g st < ls_g (layout_step find_metric frame st)
       \<and> ls_g (layout_step find_metric frame st)
           \<le> used (ls_gstring (layout_step find_metric frame st))
       \<and> (\<forall>i. i + 1 < ls_g st \<longrightarrow>
             MGLYPH (ls_gstring (layout_step find_metric frame st)) i
               = MGLYPH (ls_gstring st) i)
       \<and> (\<forall>i. Suc i = ls_g st \<and> gtype (MGLYPH (ls_gstring st) i) = GLYPH_SPACE \<longrightarrow>
             MGLYPH (ls_gstring (layout_step find_metric frame st)) i
               = (let nxt = MGLYPH (ls_gstring st) (ls_g st);
                      to = scan_run (ls_gstring st) (ls_box st) nxt (ls_g st + 1);
                      extra = - sub_lbearing
                                  (layout_glyphs find_metric (ls_gstring st) (ls_g st) to)
                  in if gtype nxt = GLYPH_CHAR
                        \<and> \<not> (category nxt = McatCf
                              \<and> ignore_formatting_char (control (ls_gstring st)))
                        \<and> box (rface nxt) = ls_box st
                        \<and> rfont (rface nxt) \<noteq> None \<and> gcode nxt \<noteq> MCHAR_INVALID_CODE
                        \<and> extra > 0
                     then (MGLYPH (ls_gstring st) i)\<lparr>gwidth :=
                            (if extra + 2 < gwidth (MGLYPH (ls_gstring st) i)
                             then gwidth (MGLYPH (ls_gstring st) i) - extra else 2)\<rparr>
                     else MGLYPH (ls_gstring st) i))"
proof (cases "ls_box st = box (rface (MGLYPH (ls_gstring st) (ls_g st)))")
  case True
  from layout_step_same_box[OF inside True, of find_metric frame] True show ?thesis
    unfolding Let_def by simp
next
  case False
  define st1 where "st1 = insert_box_edges frame st"
  have i1: "ls_g st1 < used (ls_gstring st1)"
    using insert_box_edges_measure[OF inside, of frame] by (simp add: st1_def)
  have b1: "ls_box st1 = box (rface (MGLYPH (ls_gstring st1) (ls_g st1)))"
    using insert_box_edges_box[OF inside, of frame] insert_box_edges_same[OF inside, of frame]
    by (simp add: st1_def)
  have m1: "ls_g st < ls_g st1"
    using insert_box_edges_moves[OF inside False, of frame] by (simp add: st1_def)
  have k1: "MGLYPH (ls_gstring st1) i = MGLYPH (ls_gstring st) i" if "i < ls_g st" for i
    using insert_box_edges_before[OF inside that, of frame] by (simp add: st1_def)
  have step: "layout_step find_metric frame st = layout_step find_metric frame st1"
    unfolding st1_def by (rule layout_step_after_box_edges[OF inside])
  from layout_step_same_box[OF i1 b1, of find_metric frame]
  have s: "ls_g st1 < ls_g (layout_step find_metric frame st1)"
    "ls_g (layout_step find_metric frame st1)
           \<le> used (ls_gstring (layout_step find_metric frame st1))"
    "\<And>i. i + 1 < ls_g st1 \<Longrightarrow>
             MGLYPH (ls_gstring (layout_step find_metric frame st1)) i
               = MGLYPH (ls_gstring st1) i"
    by simp_all
  have keep: "MGLYPH (ls_gstring (layout_step find_metric frame st)) i
               = MGLYPH (ls_gstring st) i" if "i < ls_g st" for i
  proof -
    have "i + 1 < ls_g st1" using that m1 by simp
    from s(3)[OF this] k1[OF that] show ?thesis by (simp add: step)
  qed
  from s(1,2) m1 keep False show ?thesis
    unfolding step Let_def by auto
qed

lemma layout_loop_keeps:
  assumes "ls_g st \<le> used (ls_gstring st)" and "i + 1 < ls_g st"
  shows "MGLYPH (ls_gstring (layout_loop find_metric frame st)) i = MGLYPH (ls_gstring st) i
       \<and> ls_g st \<le> ls_g (layout_loop find_metric frame st)
       \<and> ls_g (layout_loop find_metric frame st)
           \<le> used (ls_gstring (layout_loop find_metric frame st))"
  using assms
proof (induction find_metric frame st rule: layout_loop.induct)
  case (1 find_metric frame st)
  show ?case
  proof (cases "ls_g st < used (ls_gstring st)
         \<and> gtype (MGLYPH (ls_gstring st) (ls_g st)) \<noteq> GLYPH_ANCHOR")
    case True
    then have inside: "ls_g st < used (ls_gstring st)" by simp
    from layout_step_cases[OF inside, of find_metric frame] "1.prems"(2)
    have s: "ls_g st < ls_g (layout_step find_metric frame st)"
      "ls_g (layout_step find_metric frame st)
           \<le> used (ls_gstring (layout_step find_metric frame st))"
      "MGLYPH (ls_gstring (layout_step find_metric frame st)) i = MGLYPH (ls_gstring st) i"
      by simp_all
    have i: "i + 1 < ls_g (layout_step find_metric frame st)"
      using s(1) "1.prems"(2) by simp
    have eq: "layout_loop find_metric frame st
        = layout_loop find_metric frame (layout_step find_metric frame st)"
      by (rule loop_continues[OF True])
    from "1.IH"[OF True s(2) i] s show ?thesis unfolding eq by simp
  next
    case False
    have "layout_loop find_metric frame st = st"
      by (rule loop_stops[OF False])
    with "1.prems" show ?thesis by simp
  qed
qed

lemma layout_loop_funpow:
  "(\<forall>i<n. ls_g ((layout_step find_metric frame ^^ i) st)
               < used (ls_gstring ((layout_step find_metric frame ^^ i) st))
           \<and> gtype (MGLYPH (ls_gstring ((layout_step find_metric frame ^^ i) st))
                       (ls_g ((layout_step find_metric frame ^^ i) st))) \<noteq> GLYPH_ANCHOR)
   \<Longrightarrow> layout_loop find_metric frame st
       = layout_loop find_metric frame ((layout_step find_metric frame ^^ n) st)"
proof (induction n)
  case 0
  show ?case by simp
next
  case (Suc n)
  from Suc.prems have c: "ls_g ((layout_step find_metric frame ^^ n) st)
               < used (ls_gstring ((layout_step find_metric frame ^^ n) st))
           \<and> gtype (MGLYPH (ls_gstring ((layout_step find_metric frame ^^ n) st))
                       (ls_g ((layout_step find_metric frame ^^ n) st))) \<noteq> GLYPH_ANCHOR"
    by simp
  from Suc.prems have "layout_loop find_metric frame st
       = layout_loop find_metric frame ((layout_step find_metric frame ^^ n) st)"
    by (intro Suc.IH) simp
  also have "\<dots> = layout_loop find_metric frame
        (layout_step find_metric frame ((layout_step find_metric frame ^^ n) st))"
    by (rule loop_continues[OF c])
  finally show ?case by simp
qed

lemma MGLYPH_insert_last_box_edge:
  "i < ls_g st \<Longrightarrow> ls_g st \<le> used (ls_gstring st)
   \<Longrightarrow> MGLYPH (insert_last_box_edge frame st) i = MGLYPH (ls_gstring st) i"
  by (simp add: insert_last_box_edge_def Let_def MGLYPH_INSERT_before MGLYPH_advance
        used_advance split: option.splits)

lemma MGLYPH_finish_line_metrics: "MGLYPH (finish_line_metrics h gs) i = MGLYPH gs i"
  by (simp add: finish_line_metrics_def Let_def MGLYPH_def)

lemma MGLYPH_rtl_tab_fix:
  "gtype (MGLYPH gs i) \<noteq> GLYPH_CHAR
   \<Longrightarrow> MGLYPH (rtl_tab_fix tw gs n w) i = MGLYPH gs i"
proof (induction n arbitrary: gs w)
  case 0
  show ?case by simp
next
  case (Suc n)
  show ?case
  proof (cases "gtype (MGLYPH gs (Suc n)) \<noteq> GLYPH_ANCHOR
                \<and> gtype (MGLYPH gs (Suc n)) = GLYPH_CHAR \<and> gchar (MGLYPH gs (Suc n)) = 9")
    case True
    with Suc.prems have ne: "i \<noteq> Suc n" by auto
    define this_width where "this_width =
       (let w0 = tw - (w smod tw);
            w1 = (if gtype (MGLYPH gs (Suc n + 1)) = GLYPH_PAD
                  then w0 - gwidth (MGLYPH gs (Suc n + 1)) else w0);
            w2 = (if gtype (MGLYPH gs n) = GLYPH_PAD
                  then w1 - gwidth (MGLYPH gs n) else w1)
        in if w2 < 2 then 2 else w2)"
    define gs1 where "gs1 = (set_glyph gs (Suc n) ((MGLYPH gs (Suc n))\<lparr>gwidth := this_width\<rparr>))
                                \<lparr>swidth := swidth gs + (this_width - gwidth (MGLYPH gs (Suc n))),
                                 srbearing := srbearing gs
                                    + (this_width - gwidth (MGLYPH gs (Suc n)))\<rparr>"
    have k: "MGLYPH gs1 i = MGLYPH gs i"
      using ne by (simp add: gs1_def MGLYPH_def set_glyph_def)
    have "rtl_tab_fix tw gs (Suc n) w = rtl_tab_fix tw gs1 n (w + this_width)"
      using True by (simp add: Let_def gs1_def this_width_def)
    moreover have "MGLYPH (rtl_tab_fix tw gs1 n (w + this_width)) i = MGLYPH gs1 i"
      using Suc.prems k by (intro Suc.IH) simp
    ultimately show ?thesis using k by simp
  next
    case False
    then show ?thesis using Suc.IH[OF Suc.prems] by (auto simp: Let_def)
  qed
qed

subsection \<open>The control of a glyph string is not changed by the layout\<close>

lemma control_INSERT_GLYPH: "control (INSERT_GLYPH gs i g) = control gs"
  by (simp add: INSERT_GLYPH_def)

lemma control_advance: "control (advance gs w) = control gs"
  by (simp add: advance_def)

lemma control_set_glyph: "control (set_glyph gs i g) = control gs"
  by (simp add: set_glyph_def)

lemma control_insert_box_edges:
  "control (ls_gstring (insert_box_edges frame st)) = control (ls_gstring st)"
  by (simp add: insert_box_edges_def Let_def control_INSERT_GLYPH control_advance
           split: option.splits prod.splits)

lemma control_layout_glyphs: "control (layout_glyphs find_metric gs from to) = control gs"
  by (simp add: layout_glyphs_def split: prod.splits)

lemma control_pad_left: "control (fst (pad_left gs from to)) = control gs"
  by (simp add: pad_left_def Let_def control_INSERT_GLYPH control_set_glyph)

lemma control_pad_right: "control (fst (pad_right gs bx to)) = control gs"
  by (simp add: pad_right_def Let_def control_INSERT_GLYPH control_set_glyph
           split: prod.splits)

lemma control_add_run: "control (add_run gs rf) = control gs"
  by (simp add: add_run_def Let_def)

lemma control_layout_no_font: "control (layout_no_font rf gs i n) = control gs"
  by (induction n arbitrary: gs i) (simp_all add: Let_def control_advance control_set_glyph)

lemma control_layout_char_run:
  "control (ls_gstring (layout_char_run find_metric frame st)) = control (ls_gstring st)"
  by (simp add: layout_char_run_def Let_def case_prod_beta control_add_run control_pad_right
        control_pad_left control_layout_glyphs control_layout_no_font)

lemma control_layout_space:
  "control (ls_gstring (layout_space frame st)) = control (ls_gstring st)"
  by (simp add: layout_space_def Let_def control_advance control_set_glyph)

lemma control_layout_other:
  "control (ls_gstring (layout_other st)) = control (ls_gstring st)"
  by (simp add: layout_other_def control_advance)

lemma control_layout_step:
  "control (ls_gstring (layout_step find_metric frame st)) = control (ls_gstring st)"
  by (simp add: layout_step_def Let_def control_layout_char_run control_layout_space
        control_layout_other control_set_glyph control_insert_box_edges)

lemma control_layout_loop:
  "control (ls_gstring (layout_loop find_metric frame st)) = control (ls_gstring st)"
proof (induction find_metric frame st rule: layout_loop.induct)
  case (1 find_metric frame st)
  show ?case
  proof (cases "ls_g st < used (ls_gstring st)
         \<and> gtype (MGLYPH (ls_gstring st) (ls_g st)) \<noteq> GLYPH_ANCHOR")
    case True
    have "layout_loop find_metric frame st
        = layout_loop find_metric frame (layout_step find_metric frame st)"
      by (subst layout_loop.simps) (rule if_P[OF True])
    with "1.IH"[OF True] show ?thesis by (simp add: control_layout_step)
  next
    case False
    have "layout_loop find_metric frame st = st"
      by (subst layout_loop.simps) (rule if_not_P[OF False])
    then show ?thesis by simp
  qed
qed

lemma control_insert_last_box_edge:
  "control (insert_last_box_edge frame st) = control (ls_gstring st)"
  by (simp add: insert_last_box_edge_def Let_def control_INSERT_GLYPH control_advance
           split: option.splits)

lemma rtl_tab_fix_keeps:
  "control (rtl_tab_fix tw gs n w) = control gs
   \<and> sascent (rtl_tab_fix tw gs n w) = sascent gs
   \<and> sdescent (rtl_tab_fix tw gs n w) = sdescent gs
   \<and> physical_ascent (rtl_tab_fix tw gs n w) = physical_ascent gs
   \<and> physical_descent (rtl_tab_fix tw gs n w) = physical_descent gs
   \<and> line_ascent (rtl_tab_fix tw gs n w) = line_ascent gs
   \<and> line_descent (rtl_tab_fix tw gs n w) = line_descent gs"
  by (induction n arbitrary: gs w) (simp_all add: Let_def set_glyph_def)

lemma finish_line_metrics_lines:
  "line_ascent (finish_line_metrics h gs)
     = clamp_line (min_line_ascent (control gs)) (max_line_ascent (control gs))
         (max (sascent (finish_line_metrics h gs)) (physical_ascent (finish_line_metrics h gs)))
   \<and> line_descent (finish_line_metrics h gs)
     = clamp_line (min_line_descent (control gs)) (max_line_descent (control gs))
         (max (sdescent (finish_line_metrics h gs)) (physical_descent (finish_line_metrics h gs)))
   \<and> control (finish_line_metrics h gs) = control gs"
  by (simp add: finish_line_metrics_def Let_def max_def)

lemma clamp_line_ge: "hi = 0 \<or> hi \<le> lo \<or> v \<le> hi \<Longrightarrow> v \<le> clamp_line lo hi v"
  by (auto simp: clamp_line_def)

subsection \<open>The indent of a glyph string is not changed by the layout\<close>

lemma indent_INSERT_GLYPH: "indent (INSERT_GLYPH gs i g) = indent gs"
  by (simp add: INSERT_GLYPH_def)

lemma indent_advance: "indent (advance gs w) = indent gs"
  by (simp add: advance_def)

lemma indent_set_glyph: "indent (set_glyph gs i g) = indent gs"
  by (simp add: set_glyph_def)

lemma indent_insert_box_edges:
  "indent (ls_gstring (insert_box_edges frame st)) = indent (ls_gstring st)"
  by (simp add: insert_box_edges_def Let_def indent_INSERT_GLYPH indent_advance
           split: option.splits prod.splits)

lemma indent_layout_glyphs: "indent (layout_glyphs find_metric gs from to) = indent gs"
  by (simp add: layout_glyphs_def split: prod.splits)

lemma indent_pad_left: "indent (fst (pad_left gs from to)) = indent gs"
  by (simp add: pad_left_def Let_def indent_INSERT_GLYPH indent_set_glyph)

lemma indent_pad_right: "indent (fst (pad_right gs bx to)) = indent gs"
  by (simp add: pad_right_def Let_def indent_INSERT_GLYPH indent_set_glyph
           split: prod.splits)

lemma indent_add_run: "indent (add_run gs rf) = indent gs"
  by (simp add: add_run_def Let_def)

lemma indent_layout_no_font: "indent (layout_no_font rf gs i n) = indent gs"
  by (induction n arbitrary: gs i) (simp_all add: Let_def indent_advance indent_set_glyph)

lemma indent_layout_char_run:
  "indent (ls_gstring (layout_char_run find_metric frame st)) = indent (ls_gstring st)"
  by (simp add: layout_char_run_def Let_def case_prod_beta indent_add_run indent_pad_right
        indent_pad_left indent_layout_glyphs indent_layout_no_font)

lemma indent_layout_space:
  "indent (ls_gstring (layout_space frame st)) = indent (ls_gstring st)"
  by (simp add: layout_space_def Let_def indent_advance indent_set_glyph)

lemma indent_layout_other:
  "indent (ls_gstring (layout_other st)) = indent (ls_gstring st)"
  by (simp add: layout_other_def indent_advance)

lemma indent_layout_step:
  "indent (ls_gstring (layout_step find_metric frame st)) = indent (ls_gstring st)"
  by (simp add: layout_step_def Let_def indent_layout_char_run indent_layout_space
        indent_layout_other indent_set_glyph indent_insert_box_edges)

lemma indent_layout_loop:
  "indent (ls_gstring (layout_loop find_metric frame st)) = indent (ls_gstring st)"
proof (induction find_metric frame st rule: layout_loop.induct)
  case (1 find_metric frame st)
  show ?case
  proof (cases "ls_g st < used (ls_gstring st)
         \<and> gtype (MGLYPH (ls_gstring st) (ls_g st)) \<noteq> GLYPH_ANCHOR")
    case True
    have "layout_loop find_metric frame st
        = layout_loop find_metric frame (layout_step find_metric frame st)"
      by (subst layout_loop.simps) (rule if_P[OF True])
    with "1.IH"[OF True] show ?thesis by (simp add: indent_layout_step)
  next
    case False
    have "layout_loop find_metric frame st = st"
      by (subst layout_loop.simps) (rule if_not_P[OF False])
    then show ?thesis by simp
  qed
qed

lemma layout_glyph_string_glyph:
  assumes st: "st = layout_loop find_metric frame (layout_start gstring)"
    and i: "i < ls_g st" "ls_g st \<le> used (ls_gstring st)"
    and t: "gtype (MGLYPH (ls_gstring st) i) \<noteq> GLYPH_CHAR"
  shows "MGLYPH (layout_glyph_string find_metric frame gstring) i = MGLYPH (ls_gstring st) i"
proof -
  define gs2 where
    "gs2 = finish_line_metrics (ls_box_line_height st) (insert_last_box_edge frame st)"
  have k: "MGLYPH gs2 i = MGLYPH (ls_gstring st) i"
    using MGLYPH_insert_last_box_edge[OF i, of frame]
    by (simp add: gs2_def MGLYPH_finish_line_metrics)
  have eq: "layout_glyph_string find_metric frame gstring
      = (if orientation_reversed (control gs2) \<and> ls_tab_found st
         then rtl_tab_fix (default_tab_width frame gstring) gs2 (used gs2 - 2) (indent gs2)
         else gs2)"
    unfolding layout_glyph_string_def Let_def gs2_def st by (rule refl)
  have "gtype (MGLYPH gs2 i) \<noteq> GLYPH_CHAR" using t k by simp
  from MGLYPH_rtl_tab_fix[OF this] k show ?thesis unfolding eq by simp
qed

lemma layout_step_at_space:
  assumes inside: "ls_g st < used (ls_gstring st)"
    and space: "gtype (MGLYPH (ls_gstring st) (ls_g st)) = GLYPH_SPACE"
    and same_box: "ls_box st = box (rface (MGLYPH (ls_gstring st) (ls_g st)))"
  shows "layout_step find_metric frame st = layout_space frame st"
proof -
  have ibe: "insert_box_edges frame st = st"
    using same_box by (rule insert_box_edges_stays)
  have same: "(MGLYPH (ls_gstring st) (ls_g st))\<lparr>gtype := GLYPH_SPACE\<rparr>
      = MGLYPH (ls_gstring st) (ls_g st)"
    using space by simp
  have "set_glyph (ls_gstring st) (ls_g st) (MGLYPH (ls_gstring st) (ls_g st)) = ls_gstring st"
    by (simp add: set_glyph_def MGLYPH_def)
  then have st2: "(if category (MGLYPH (ls_gstring st) (ls_g st)) = McatCf
                      \<and> ignore_formatting_char (control (ls_gstring st))
                 then st\<lparr>ls_gstring := set_glyph (ls_gstring st) (ls_g st)
                        ((MGLYPH (ls_gstring st) (ls_g st))\<lparr>gtype := GLYPH_SPACE\<rparr>)\<rparr>
                 else st) = st"
    by (simp add: same)
  show ?thesis
    using space unfolding layout_step_def Let_def ibe st2 by simp
qed

lemma control_funpow:
  "control (ls_gstring ((layout_step find_metric frame ^^ n) st)) = control (ls_gstring st)"
  by (induction n) (simp_all add: control_layout_step)

lemma indent_funpow:
  "indent (ls_gstring ((layout_step find_metric frame ^^ n) st)) = indent (ls_gstring st)"
  by (induction n) (simp_all add: indent_layout_step)

subsection \<open>The width of a TAB\<close>

lemma f_tab_step1:
  "layout_step overhang_metric sample_frame (layout_start f_tab) =
     (layout_start f_tab)\<lparr>ls_gstring := (ls_gstring (layout_start f_tab))
        \<lparr>glyphs := [anchor_glyph 0,
                    (char_glyph GLYPH_CHAR 102 0)\<lparr>gwidth := 10, grbearing := 12, gascent := 10\<rparr>,
                    (char_glyph GLYPH_CHAR 102 0)\<lparr>gtype := GLYPH_PAD, gwidth := 2,
                       grbearing := 1, gascent := 10\<rparr>,
                    char_glyph GLYPH_SPACE 9 1, anchor_glyph 2],
         physical_ascent := 10, sub_width := 12, sub_rbearing := 12, srbearing := 12,
         swidth := 12, sascent := 10, sdescent := 3\<rparr>, ls_g := 3\<rparr>"
  by (simp add: layout_step_def insert_box_edges_def McatCf_def run_defs overhang_metric_def
        sample_metric_def layout_start_def f_tab_def sample_defs Let_def)

lemma f_tab_step2:
  "layout_step overhang_metric sample_frame
     ((layout_start f_tab)\<lparr>ls_gstring := (ls_gstring (layout_start f_tab))
        \<lparr>glyphs := [anchor_glyph 0,
                    (char_glyph GLYPH_CHAR 102 0)\<lparr>gwidth := 10, grbearing := 12, gascent := 10\<rparr>,
                    (char_glyph GLYPH_CHAR 102 0)\<lparr>gtype := GLYPH_PAD, gwidth := 2,
                       grbearing := 1, gascent := 10\<rparr>,
                    char_glyph GLYPH_SPACE 9 1, anchor_glyph 2],
         physical_ascent := 10, sub_width := 12, sub_rbearing := 12, srbearing := 12,
         swidth := 12, sascent := 10, sdescent := 3\<rparr>, ls_g := 3\<rparr>) =
     (layout_start f_tab)\<lparr>ls_gstring := (ls_gstring (layout_start f_tab))
        \<lparr>glyphs := [anchor_glyph 0,
                    (char_glyph GLYPH_CHAR 102 0)\<lparr>gwidth := 10, grbearing := 12, gascent := 10\<rparr>,
                    (char_glyph GLYPH_CHAR 102 0)\<lparr>gtype := GLYPH_PAD, gwidth := 2,
                       grbearing := 1, gascent := 10\<rparr>,
                    (char_glyph GLYPH_SPACE 9 1)\<lparr>gwidth := 66, grbearing := 66\<rparr>,
                    anchor_glyph 2],
         physical_ascent := 10, sub_width := 12, sub_rbearing := 12, srbearing := 78,
         swidth := 78, sascent := 10, sdescent := 3\<rparr>, ls_g := 4, ls_tab_found := True\<rparr>"
  by (simp add: layout_step_def insert_box_edges_def McatCf_def space_defs
        default_tab_width_def sample_frame_def signed_modulo_int_def
        layout_start_def f_tab_def sample_defs Let_def)

lemma f_tab_loop:
  "layout_loop overhang_metric sample_frame (layout_start f_tab) =
     (layout_start f_tab)\<lparr>ls_gstring := (ls_gstring (layout_start f_tab))
        \<lparr>glyphs := [anchor_glyph 0,
                    (char_glyph GLYPH_CHAR 102 0)\<lparr>gwidth := 10, grbearing := 12, gascent := 10\<rparr>,
                    (char_glyph GLYPH_CHAR 102 0)\<lparr>gtype := GLYPH_PAD, gwidth := 2,
                       grbearing := 1, gascent := 10\<rparr>,
                    (char_glyph GLYPH_SPACE 9 1)\<lparr>gwidth := 66, grbearing := 66\<rparr>,
                    anchor_glyph 2],
         physical_ascent := 10, sub_width := 12, sub_rbearing := 12, srbearing := 78,
         swidth := 78, sascent := 10, sdescent := 3\<rparr>, ls_g := 4, ls_tab_found := True\<rparr>"
proof -
  have "layout_loop overhang_metric sample_frame (layout_start f_tab)
      = layout_loop overhang_metric sample_frame
          (layout_step overhang_metric sample_frame (layout_start f_tab))"
    by (rule loop_continues)
       (simp add: layout_start_def f_tab_def sample_defs MGLYPH_def used_def)
  also have "\<dots> = layout_loop overhang_metric sample_frame
      (layout_step overhang_metric sample_frame
         (layout_step overhang_metric sample_frame (layout_start f_tab)))"
    unfolding f_tab_step1
    by (rule loop_continues)
       (simp add: layout_start_def f_tab_def sample_defs MGLYPH_def used_def)
  also have "\<dots> = layout_step overhang_metric sample_frame
         (layout_step overhang_metric sample_frame (layout_start f_tab))"
    unfolding f_tab_step1 f_tab_step2
    by (rule loop_stops)
       (simp add: layout_start_def f_tab_def sample_defs MGLYPH_def used_def)
  finally show ?thesis unfolding f_tab_step1 f_tab_step2 .
qed

lemma f_tab_layout:
  "gwidth (MGLYPH (layout_glyph_string overhang_metric sample_frame f_tab) 3) = 66"
  unfolding layout_glyph_string_def f_tab_loop
  by (simp add: insert_last_box_edge_def finish_line_metrics_def layout_start_def
        f_tab_def sample_gstring_def sample_control_def char_glyph_def MGLYPH_def Let_def)

lemma tab_j_step1:
  "layout_step overhang_metric sample_frame (layout_start tab_j) =
     (layout_start tab_j)\<lparr>ls_gstring := (ls_gstring (layout_start tab_j))
        \<lparr>glyphs := [anchor_glyph 0,
                    (char_glyph GLYPH_SPACE 9 0)\<lparr>gwidth := 80, grbearing := 80\<rparr>,
                    char_glyph GLYPH_CHAR 106 1, anchor_glyph 2],
         srbearing := 80, swidth := 80, sascent := 10, sdescent := 3\<rparr>,
       ls_g := 2, ls_tab_found := True\<rparr>"
  by (simp add: layout_step_def insert_box_edges_def McatCf_def space_defs
        default_tab_width_def sample_frame_def signed_modulo_int_def
        layout_start_def tab_j_def sample_defs Let_def)

lemma tab_j_step2:
  "layout_step overhang_metric sample_frame
     ((layout_start tab_j)\<lparr>ls_gstring := (ls_gstring (layout_start tab_j))
        \<lparr>glyphs := [anchor_glyph 0,
                    (char_glyph GLYPH_SPACE 9 0)\<lparr>gwidth := 80, grbearing := 80\<rparr>,
                    char_glyph GLYPH_CHAR 106 1, anchor_glyph 2],
         srbearing := 80, swidth := 80, sascent := 10, sdescent := 3\<rparr>,
       ls_g := 2, ls_tab_found := True\<rparr>) =
     (layout_start tab_j)\<lparr>ls_gstring := (ls_gstring (layout_start tab_j))
        \<lparr>glyphs := [anchor_glyph 0,
                    (char_glyph GLYPH_SPACE 9 0)\<lparr>gwidth := 77, grbearing := 80\<rparr>,
                    (char_glyph GLYPH_CHAR 106 1)\<lparr>gtype := GLYPH_PAD, gwidth := 3,
                       glbearing := 0, grbearing := 3, gascent := 10, gdescent := 3,
                       left_padding := True\<rparr>,
                    (char_glyph GLYPH_CHAR 106 1)\<lparr>gwidth := 10, glbearing := - 3,
                       grbearing := 10, gascent := 10, gdescent := 3\<rparr>,
                    anchor_glyph 2],
         physical_ascent := 10, physical_descent := 3, sub_width := 13, sub_lbearing := 0,
         sub_rbearing := 13, srbearing := 90, swidth := 90, sascent := 10,
         sdescent := 3\<rparr>,
       ls_g := 4, ls_tab_found := True\<rparr>"
  by (simp add: layout_step_def insert_box_edges_def McatCf_def run_defs overhang_metric_def
        sample_metric_def layout_start_def tab_j_def sample_defs Let_def)

lemma tab_j_loop:
  "layout_loop overhang_metric sample_frame (layout_start tab_j) =
     (layout_start tab_j)\<lparr>ls_gstring := (ls_gstring (layout_start tab_j))
        \<lparr>glyphs := [anchor_glyph 0,
                    (char_glyph GLYPH_SPACE 9 0)\<lparr>gwidth := 77, grbearing := 80\<rparr>,
                    (char_glyph GLYPH_CHAR 106 1)\<lparr>gtype := GLYPH_PAD, gwidth := 3,
                       glbearing := 0, grbearing := 3, gascent := 10, gdescent := 3,
                       left_padding := True\<rparr>,
                    (char_glyph GLYPH_CHAR 106 1)\<lparr>gwidth := 10, glbearing := - 3,
                       grbearing := 10, gascent := 10, gdescent := 3\<rparr>,
                    anchor_glyph 2],
         physical_ascent := 10, physical_descent := 3, sub_width := 13, sub_lbearing := 0,
         sub_rbearing := 13, srbearing := 90, swidth := 90, sascent := 10,
         sdescent := 3\<rparr>,
       ls_g := 4, ls_tab_found := True\<rparr>"
proof -
  have "layout_loop overhang_metric sample_frame (layout_start tab_j)
      = layout_loop overhang_metric sample_frame
          (layout_step overhang_metric sample_frame (layout_start tab_j))"
    by (rule loop_continues)
       (simp add: layout_start_def tab_j_def sample_defs MGLYPH_def used_def)
  also have "\<dots> = layout_loop overhang_metric sample_frame
      (layout_step overhang_metric sample_frame
         (layout_step overhang_metric sample_frame (layout_start tab_j)))"
    unfolding tab_j_step1
    by (rule loop_continues)
       (simp add: layout_start_def tab_j_def sample_defs MGLYPH_def used_def)
  also have "\<dots> = layout_step overhang_metric sample_frame
         (layout_step overhang_metric sample_frame (layout_start tab_j))"
    unfolding tab_j_step1 tab_j_step2
    by (rule loop_stops)
       (simp add: layout_start_def tab_j_def sample_defs MGLYPH_def used_def)
  finally show ?thesis unfolding tab_j_step1 tab_j_step2 .
qed

lemma layout_space_glyph:
  "ls_g st < used (ls_gstring st) \<Longrightarrow>
   MGLYPH (ls_gstring (layout_space frame st)) (ls_g st)
     = (MGLYPH (ls_gstring st) (ls_g st))
         \<lparr>gwidth := absorb_pad (MGLYPH (ls_gstring st) (ls_g st - 1))
                      (space_glyph_width frame (ls_gstring st)
                         (MGLYPH (ls_gstring st) (ls_g st))),
          grbearing := absorb_pad (MGLYPH (ls_gstring st) (ls_g st - 1))
                      (space_glyph_width frame (ls_gstring st)
                         (MGLYPH (ls_gstring st) (ls_g st)))\<rparr>"
  by (simp add: layout_space_def Let_def MGLYPH_def advance_def set_glyph_def used_def)

lemma layout_space_state:
  "ls_box (layout_space frame st) = ls_box st
   \<and> control (ls_gstring (layout_space frame st)) = control (ls_gstring st)"
  by (simp add: layout_space_def Let_def advance_def set_glyph_def)

text \<open>
  C3, amended.  Let the loop of layout\_glyph\_string come, after \<open>n\<close> rounds, to a
  TAB (a space glyph for the character 9), and let the default width \<open>tw\<close> of TAB,
  the product \<open>frame->space_width * (control.tab_width ? control.tab_width : 8)\<close> in
  32 bits, not be 0.  The round first inserts the box edges that are due, which leaves
  the TAB at the index \<open>k\<close>, and then gives the TAB the width \<open>w\<close>:
  \<open>w0 = tw - ((indent + width) % tw)\<close> from the width laid out so far, box edges
  included, when the glyph in front of the TAB is not a pad glyph, and otherwise
  \<open>w0\<close> less the width of that pad glyph, or 2 when that is below 1.  At the end of
  layout\_glyph\_string the TAB still has the width \<open>w\<close>, unless the next glyph
  begins a run of character glyphs of the same box, with a font and a glyph code,
  whose left bearing is negative, by \<open>extra\<close>: then the left padding of that run has
  taken \<open>extra\<close> from the TAB, or has left it the width 2 when \<open>extra + 2\<close> is
  not below \<open>w\<close>.  A TAB that begins the line, with no box and no indent, has
  \<open>w = tw\<close>.
\<close>

theorem layout_glyph_string_tab_width:
  assumes rounds:
      "\<forall>i<n. ls_g ((layout_step find_metric frame ^^ i) (layout_start gstring))
               < used (ls_gstring ((layout_step find_metric frame ^^ i) (layout_start gstring)))
           \<and> gtype (MGLYPH (ls_gstring ((layout_step find_metric frame ^^ i)
                                            (layout_start gstring)))
                       (ls_g ((layout_step find_metric frame ^^ i) (layout_start gstring))))
               \<noteq> GLYPH_ANCHOR"
    and s: "s = (layout_step find_metric frame ^^ n) (layout_start gstring)"
    and inside: "ls_g s < used (ls_gstring s)"
    and space: "gtype (MGLYPH (ls_gstring s) (ls_g s)) = GLYPH_SPACE"
    and tab: "gchar (MGLYPH (ls_gstring s) (ls_g s)) = 9"
    and nonzero: "default_tab_width frame gstring \<noteq> 0"
  shows "let s1 = insert_box_edges frame s;
             k = ls_g s1;
             tw = default_tab_width frame gstring;
             w0 = tw - ((indent gstring + swidth (ls_gstring s1)) smod tw);
             prev = MGLYPH (ls_gstring s1) (k - 1);
             w = (if gtype prev = GLYPH_PAD
                  then (if w0 - gwidth prev < 1 then 2 else w0 - gwidth prev)
                  else w0);
             s' = layout_step find_metric frame s;
             nxt = MGLYPH (ls_gstring s') (k + 1);
             to = scan_run (ls_gstring s') (ls_box s') nxt (k + 2);
             extra = - sub_lbearing (layout_glyphs find_metric (ls_gstring s') (k + 1) to)
         in gwidth (MGLYPH (ls_gstring s') k) = w
          \<and> gwidth (MGLYPH (layout_glyph_string find_metric frame gstring) k)
              = (if k + 1 < used (ls_gstring s') \<and> gtype nxt = GLYPH_CHAR
                    \<and> \<not> (category nxt = McatCf \<and> ignore_formatting_char (control gstring))
                    \<and> box (rface nxt) = box (rface (MGLYPH (ls_gstring s) (ls_g s)))
                    \<and> rfont (rface nxt) \<noteq> None \<and> gcode nxt \<noteq> MCHAR_INVALID_CODE
                    \<and> extra > 0
                 then (if extra + 2 < w then w - extra else 2)
                 else w)
          \<and> (n = 0 \<and> box (rface (MGLYPH gstring 1)) = None \<and> indent gstring = 0
               \<and> gtype (MGLYPH gstring 0) \<noteq> GLYPH_PAD
              \<longrightarrow> k = 1 \<and> w = tw)"
proof -
  define s1 where "s1 = insert_box_edges frame s"
  define k where "k = ls_g s1"
  define tw where "tw = default_tab_width frame gstring"
  define w0 where "w0 = tw - ((indent gstring + swidth (ls_gstring s1)) smod tw)"
  define prev where "prev = MGLYPH (ls_gstring s1) (k - 1)"
  define w where "w = (if gtype prev = GLYPH_PAD
                  then (if w0 - gwidth prev < 1 then 2 else w0 - gwidth prev)
                  else w0)"
  define s' where "s' = layout_step find_metric frame s"
  define nxt where "nxt = MGLYPH (ls_gstring s') (k + 1)"
  define to where "to = scan_run (ls_gstring s') (ls_box s') nxt (k + 2)"
  define extra where
    "extra = - sub_lbearing (layout_glyphs find_metric (ls_gstring s') (k + 1) to)"
  define T where "T = MGLYPH (ls_gstring s) (ls_g s)"
  have ctl: "control (ls_gstring s) = control gstring"
    unfolding s control_funpow by (simp add: layout_start_def)
  have ind: "indent (ls_gstring s) = indent gstring"
    unfolding s indent_funpow by (simp add: layout_start_def)
  have ctl1: "control (ls_gstring s1) = control gstring"
    by (simp add: s1_def control_insert_box_edges ctl)
  have ind1: "indent (ls_gstring s1) = indent gstring"
    by (simp add: s1_def indent_insert_box_edges ind)
  have i1: "k < used (ls_gstring s1)"
    using insert_box_edges_measure[OF inside, of frame] by (simp add: s1_def k_def)
  have T1: "MGLYPH (ls_gstring s1) k = T"
    using insert_box_edges_same[OF inside, of frame] by (simp add: s1_def k_def T_def)
  have b1: "ls_box s1 = box (rface T)"
    using insert_box_edges_box[OF inside, of frame] by (simp add: s1_def T_def)
  have step: "s' = layout_space frame s1"
  proof -
    have "s' = layout_step find_metric frame s1"
      unfolding s'_def s1_def by (rule layout_step_after_box_edges[OF inside])
    also have "\<dots> = layout_space frame s1"
      by (rule layout_step_at_space)
         (use i1 T1 b1 space in \<open>simp_all add: k_def[symmetric] T_def\<close>)
    finally show ?thesis .
  qed
  have twd: "default_tab_width frame (ls_gstring s1) = tw"
    by (simp add: default_tab_width_def ctl1 tw_def)
  have tabT: "gchar T = 9" "gtype T = GLYPH_SPACE" using tab space by (simp_all add: T_def)
  have sw: "space_glyph_width frame (ls_gstring s1) T = w0"
    using tabT by (simp add: space_glyph_width_def twd ind1 w0_def)
  have g': "MGLYPH (ls_gstring s') k = T\<lparr>gwidth := w, grbearing := w\<rparr>"
    using layout_space_glyph[of s1 frame] i1
    by (simp add: step k_def[symmetric] T1 sw absorb_pad_def w_def prev_def Let_def)
  have gk: "gtype (MGLYPH (ls_gstring s') k) = GLYPH_SPACE" "gwidth (MGLYPH (ls_gstring s') k) = w"
    using tabT by (simp_all add: g')
  have sp: "ls_g s' = k + 1" "used (ls_gstring s') = used (ls_gstring s1)"
    using layout_space_cases[of s1 frame] i1 by (simp_all add: step k_def)
  have st': "ls_box s' = box (rface T)" "control (ls_gstring s') = control gstring"
    using layout_space_state[of frame s1] by (simp_all add: step b1 ctl1)
  define fin where "fin = layout_loop find_metric frame s'"
  have fin: "fin = layout_loop find_metric frame (layout_start gstring)"
  proof -
    have "layout_loop find_metric frame (layout_start gstring)
        = layout_loop find_metric frame s"
      unfolding s by (rule layout_loop_funpow[OF rounds])
    also have "\<dots> = layout_loop find_metric frame (layout_step find_metric frame s)"
      by (rule loop_continues) (use inside space in simp)
    finally show ?thesis by (simp add: fin_def s'_def)
  qed
  define shrinks where "shrinks \<longleftrightarrow>
     k + 1 < used (ls_gstring s') \<and> gtype nxt = GLYPH_CHAR
     \<and> \<not> (category nxt = McatCf \<and> ignore_formatting_char (control gstring))
     \<and> box (rface nxt) = box (rface T)
     \<and> rfont (rface nxt) \<noteq> None \<and> gcode nxt \<noteq> MCHAR_INVALID_CODE
     \<and> extra > 0"
  have last: "gtype (MGLYPH (ls_gstring fin) k) = GLYPH_SPACE
       \<and> gwidth (MGLYPH (ls_gstring fin) k)
           = (if shrinks then (if extra + 2 < w then w - extra else 2) else w)
       \<and> k < ls_g fin \<and> ls_g fin \<le> used (ls_gstring fin)"
  proof (cases "ls_g s' < used (ls_gstring s')
         \<and> gtype (MGLYPH (ls_gstring s') (ls_g s')) \<noteq> GLYPH_ANCHOR")
    case True
    then have inside': "ls_g s' < used (ls_gstring s')" by simp
    define s2 where "s2 = layout_step find_metric frame s'"
    have two: "k + 2 = ls_g s' + 1" using sp(1) by simp
    have sk: "Suc k = ls_g s'" using sp(1) by simp
    from layout_step_cases[OF inside', of find_metric frame]
    have c: "ls_g s' < ls_g s2" "ls_g s2 \<le> used (ls_gstring s2)"
      by (simp_all add: s2_def)
    note raw = layout_step_cases[OF inside', of find_metric frame, THEN conjunct2,
        THEN conjunct2, THEN conjunct2, rule_format, OF conjI[OF sk gk(1)]]
    have p: "MGLYPH (ls_gstring s2) k
               = (if gtype nxt = GLYPH_CHAR
                        \<and> \<not> (category nxt = McatCf
                              \<and> ignore_formatting_char (control gstring))
                        \<and> box (rface nxt) = box (rface T)
                        \<and> rfont (rface nxt) \<noteq> None \<and> gcode nxt \<noteq> MCHAR_INVALID_CODE
                        \<and> extra > 0
                  then (MGLYPH (ls_gstring s') k)\<lparr>gwidth :=
                            (if extra + 2 < gwidth (MGLYPH (ls_gstring s') k)
                             then gwidth (MGLYPH (ls_gstring s') k) - extra else 2)\<rparr>
                  else MGLYPH (ls_gstring s') k)"
    proof -
      have n: "MGLYPH (ls_gstring s') (ls_g s') = nxt" by (simp add: nxt_def sp(1))
      have t: "scan_run (ls_gstring s') (ls_box s') nxt (ls_g s' + 1) = to"
        by (simp add: to_def sp(1))
      have e: "- sub_lbearing (layout_glyphs find_metric (ls_gstring s') (ls_g s') to) = extra"
        by (simp add: extra_def sp(1))
      have b: "(box (rface nxt) = ls_box s') = (box (rface nxt) = box (rface T))"
        by (simp add: st'(1))
      show ?thesis
        using raw unfolding Let_def n t e s2_def[symmetric] st'(2) b .
    qed
    have sh: "shrinks \<longleftrightarrow> gtype nxt = GLYPH_CHAR
                        \<and> \<not> (category nxt = McatCf
                              \<and> ignore_formatting_char (control gstring))
                        \<and> box (rface nxt) = box (rface T)
                        \<and> rfont (rface nxt) \<noteq> None \<and> gcode nxt \<noteq> MCHAR_INVALID_CODE
                        \<and> extra > 0"
      using inside' sp(1) by (simp add: shrinks_def)
    have eq: "fin = layout_loop find_metric frame s2"
      unfolding fin_def s2_def by (rule loop_continues[OF True])
    have far: "k + 1 < ls_g s2" using c(1) sp(1) by simp
    from layout_loop_keeps[OF c(2) far, of find_metric frame]
    have k: "MGLYPH (ls_gstring fin) k = MGLYPH (ls_gstring s2) k"
      "ls_g s2 \<le> ls_g fin" "ls_g fin \<le> used (ls_gstring fin)"
      by (simp_all add: eq)
    have p': "MGLYPH (ls_gstring s2) k
               = (if shrinks
                  then (MGLYPH (ls_gstring s') k)\<lparr>gwidth :=
                            (if extra + 2 < w then w - extra else 2)\<rparr>
                  else MGLYPH (ls_gstring s') k)"
      using p unfolding sh[symmetric] gk(2) .
    from k far gk show ?thesis by (cases shrinks) (simp_all add: p')
  next
    case False
    have eq: "fin = s'" unfolding fin_def by (rule loop_stops[OF False])
    have ns: "\<not> shrinks"
      using False sp(1) by (auto simp: shrinks_def nxt_def)
    from ns gk sp i1 show ?thesis by (simp add: eq)
  qed
  have final: "gwidth (MGLYPH (layout_glyph_string find_metric frame gstring) k)
              = (if shrinks then (if extra + 2 < w then w - extra else 2) else w)"
  proof -
    have "MGLYPH (layout_glyph_string find_metric frame gstring) k = MGLYPH (ls_gstring fin) k"
      by (rule layout_glyph_string_glyph[OF fin]) (use last in simp_all)
    with last show ?thesis by simp
  qed
  have start: "k = 1 \<and> w = tw"
    if "n = 0" "box (rface (MGLYPH gstring 1)) = None" "indent gstring = 0"
      "gtype (MGLYPH gstring 0) \<noteq> GLYPH_PAD"
  proof -
    have s0: "s = layout_start gstring" using that(1) by (simp add: s)
    have "ls_box s = box (rface (MGLYPH (ls_gstring s) (ls_g s)))"
      using that(2) by (simp add: s0 layout_start_def MGLYPH_def)
    then have "s1 = s" unfolding s1_def by (rule insert_box_edges_stays)
    then have a: "k = 1" "swidth (ls_gstring s1) = 0" "prev = MGLYPH gstring 0"
      by (simp_all add: k_def prev_def s0 layout_start_def MGLYPH_def)
    then have "w0 = tw" using that(3) by (simp add: w0_def signed_modulo_int_def)
    with a that(4) show ?thesis by (simp add: w_def)
  qed
  from gk(2) final start show ?thesis
    unfolding Let_def shrinks_def T_def
      s1_def[symmetric] k_def[symmetric] tw_def[symmetric] w0_def[symmetric]
      prev_def[symmetric] w_def[symmetric] s'_def[symmetric] nxt_def[symmetric]
      to_def[symmetric] extra_def[symmetric]
    by simp
qed

text \<open>
  The theorem at TAB, \<open>j\<close>, where the TAB begins the line and the \<open>j\<close> begins 3
  pixels in front of its origin: the round gives the TAB the width 80, and at the end of
  layout\_glyph\_string it is 77 wide.
\<close>

theorem layout_glyph_string_tab_width_witness:
  "ls_g (layout_start tab_j) < used (ls_gstring (layout_start tab_j))
   \<and> gchar (MGLYPH (ls_gstring (layout_start tab_j)) (ls_g (layout_start tab_j))) = 9
   \<and> default_tab_width sample_frame tab_j = 80
   \<and> gwidth (MGLYPH (ls_gstring (layout_step overhang_metric sample_frame
                                     (layout_start tab_j))) 1) = 80
   \<and> gwidth (MGLYPH (layout_glyph_string overhang_metric sample_frame tab_j) 1) = 77"
proof -
  have h: "ls_g (layout_start tab_j) < used (ls_gstring (layout_start tab_j))"
    "gtype (MGLYPH (ls_gstring (layout_start tab_j)) (ls_g (layout_start tab_j))) = GLYPH_SPACE"
    "gchar (MGLYPH (ls_gstring (layout_start tab_j)) (ls_g (layout_start tab_j))) = 9"
    by (simp_all add: layout_start_def tab_j_def sample_defs MGLYPH_def used_def)
  have tw: "default_tab_width sample_frame tab_j = 80"
    by (simp add: default_tab_width_def sample_frame_def tab_j_def sample_defs)
  have s1: "insert_box_edges sample_frame (layout_start tab_j) = layout_start tab_j"
    by (rule insert_box_edges_stays)
       (simp add: layout_start_def tab_j_def sample_defs MGLYPH_def)
  have k: "ls_g (layout_start tab_j) = 1" by (simp add: layout_start_def)
  have scan: "scan_run (ls_gstring (layout_step overhang_metric sample_frame
                                      (layout_start tab_j)))
                (ls_box (layout_step overhang_metric sample_frame (layout_start tab_j)))
                (char_glyph GLYPH_CHAR 106 1) (1 + 2) = 3"
    unfolding tab_j_step1
    by (simp add: scan_run.simps layout_start_def tab_j_def sample_defs MGLYPH_def used_def)
  have extra: "sub_lbearing (layout_glyphs overhang_metric
                 (ls_gstring (layout_step overhang_metric sample_frame (layout_start tab_j)))
                 (1 + 1) 3) = - 3"
    unfolding tab_j_step1
    by (simp add: layout_glyphs_def layout_clusters.simps layout_single_def add_to_totals_def
          mfont_get_metric_def set_metric_def overhang_metric_def
          layout_start_def tab_j_def sample_defs)
  have nxt: "MGLYPH (ls_gstring (layout_step overhang_metric sample_frame
                                   (layout_start tab_j))) (1 + 1)
               = char_glyph GLYPH_CHAR 106 1"
    "used (ls_gstring (layout_step overhang_metric sample_frame (layout_start tab_j))) = 4"
    unfolding tab_j_step1
    by (simp_all add: layout_start_def tab_j_def sample_gstring_def MGLYPH_def used_def)
  have first: "MGLYPH (ls_gstring (layout_start tab_j)) 1 = char_glyph GLYPH_SPACE 9 0"
    "MGLYPH (ls_gstring (layout_start tab_j)) 0 = anchor_glyph 0"
    "swidth (ls_gstring (layout_start tab_j)) = 0" "indent tab_j = 0"
    "control tab_j = sample_control"
    by (simp_all add: layout_start_def tab_j_def sample_gstring_def MGLYPH_def)
  from layout_glyph_string_tab_width
         [of 0 overhang_metric sample_frame tab_j "layout_start tab_j",
          unfolded Let_def s1 k tw scan extra nxt first]
  have "gwidth (MGLYPH (ls_gstring (layout_step overhang_metric sample_frame
                                     (layout_start tab_j))) 1) = 80
   \<and> gwidth (MGLYPH (layout_glyph_string overhang_metric sample_frame tab_j) 1) = 77"
    using h by (simp add: k first sample_defs McatCf_def signed_modulo_int_def)
  with h tw show ?thesis by simp
qed

text \<open>
  C3 as the specification states it fails, in two ways.  In \<open>f\<close>, TAB, where
  \<open>f\<close> is 10 wide and reaches to 12, a pad glyph of width 2 stands between the two:
  when the loop comes to the TAB the indent is 0 and the width so far is 12, so the
  formula gives 68, and the TAB gets the width 66 and keeps it.  In TAB, \<open>j\<close> the
  TAB begins the line and the indent is 0, and at the end of layout\_glyph\_string the
  TAB is 77 wide, not 80.
\<close>

theorem layout_glyph_string_tab_off_formula:
  "gtype (MGLYPH (ls_gstring (layout_step overhang_metric sample_frame (layout_start f_tab)))
            (ls_g (layout_step overhang_metric sample_frame (layout_start f_tab))))
     = GLYPH_SPACE
   \<and> gchar (MGLYPH (ls_gstring (layout_step overhang_metric sample_frame (layout_start f_tab)))
            (ls_g (layout_step overhang_metric sample_frame (layout_start f_tab)))) = 9
   \<and> ls_g (layout_step overhang_metric sample_frame (layout_start f_tab)) = 3
   \<and> default_tab_width sample_frame
         (ls_gstring (layout_step overhang_metric sample_frame (layout_start f_tab)))
       - ((indent (ls_gstring (layout_step overhang_metric sample_frame (layout_start f_tab)))
           + swidth (ls_gstring (layout_step overhang_metric sample_frame (layout_start f_tab))))
          smod default_tab_width sample_frame
                 (ls_gstring (layout_step overhang_metric sample_frame (layout_start f_tab))))
       = 68
   \<and> gwidth (MGLYPH (ls_gstring (layout_step overhang_metric sample_frame
                         (layout_step overhang_metric sample_frame (layout_start f_tab)))) 3)
       = 66
   \<and> gwidth (MGLYPH (layout_glyph_string overhang_metric sample_frame f_tab) 3) = 66
   \<and> gchar (MGLYPH tab_j 1) = 9 \<and> indent tab_j = 0
   \<and> default_tab_width sample_frame tab_j = 80
   \<and> gchar (MGLYPH (layout_glyph_string overhang_metric sample_frame tab_j) 1) = 9
   \<and> gwidth (MGLYPH (layout_glyph_string overhang_metric sample_frame tab_j) 1) = 77"
proof -
  have f: "gtype (MGLYPH (ls_gstring (layout_step overhang_metric sample_frame
                                        (layout_start f_tab)))
            (ls_g (layout_step overhang_metric sample_frame (layout_start f_tab))))
     = GLYPH_SPACE
   \<and> gchar (MGLYPH (ls_gstring (layout_step overhang_metric sample_frame (layout_start f_tab)))
            (ls_g (layout_step overhang_metric sample_frame (layout_start f_tab)))) = 9
   \<and> ls_g (layout_step overhang_metric sample_frame (layout_start f_tab)) = 3
   \<and> default_tab_width sample_frame
         (ls_gstring (layout_step overhang_metric sample_frame (layout_start f_tab)))
       - ((indent (ls_gstring (layout_step overhang_metric sample_frame (layout_start f_tab)))
           + swidth (ls_gstring (layout_step overhang_metric sample_frame (layout_start f_tab))))
          smod default_tab_width sample_frame
                 (ls_gstring (layout_step overhang_metric sample_frame (layout_start f_tab))))
       = 68
   \<and> gwidth (MGLYPH (ls_gstring (layout_step overhang_metric sample_frame
                         (layout_step overhang_metric sample_frame (layout_start f_tab)))) 3)
       = 66
   \<and> gwidth (MGLYPH (layout_glyph_string overhang_metric sample_frame f_tab) 3) = 66"
    unfolding f_tab_step1 f_tab_step2 f_tab_layout
    by (simp add: layout_start_def f_tab_def sample_defs MGLYPH_def default_tab_width_def
          sample_frame_def signed_modulo_int_def)
  have j: "gchar (MGLYPH tab_j 1) = 9 \<and> indent tab_j = 0
   \<and> default_tab_width sample_frame tab_j = 80"
    by (simp add: tab_j_def sample_defs MGLYPH_def default_tab_width_def sample_frame_def)
  have l: "gchar (MGLYPH (layout_glyph_string overhang_metric sample_frame tab_j) 1) = 9
   \<and> gwidth (MGLYPH (layout_glyph_string overhang_metric sample_frame tab_j) 1) = 77"
    unfolding layout_glyph_string_def tab_j_loop
    by (simp add: insert_last_box_edge_def finish_line_metrics_def layout_start_def
          tab_j_def sample_gstring_def sample_control_def char_glyph_def MGLYPH_def Let_def)
  from f j l show ?thesis by (elim conjE) (intro conjI; assumption)
qed

subsection \<open>The code of a combining class\<close>

lemmas codec_defs = MAKE_COMBINING_CODE_def COMBINING_CODE_OFF_Y_def COMBINING_CODE_OFF_X_def
  COMBINING_CODE_BASE_X_def COMBINING_CODE_BASE_Y_def COMBINING_CODE_ADD_X_def
  COMBINING_CODE_ADD_Y_def MAKE_COMBINING_CODE_BY_CLASS_def COMBINING_BY_CLASS_P_def
  COMBINING_CODE_CLASS_def

text \<open>
  Claim C4, as amended.  combining\_code\_from\_class maps the classes 200, 202, 204 to the
  codes placing the mark below the base (left, center, right) with no offset; 208 and
  210 to the side; 212, 214, 216 above; 218, 220, 222 below with a gap (offset 122);
  224 and 226 to the side with a gap; 228, 230, 232 above with a gap (offset 133); 233
  and 234 to the doubled below and above codes; 240 to the code of 220.  Every other
  class, zero and the negative ones included, gets the generic code whose base and mark
  alignment points are both the baseline (3) and the horizontal center (1), with no
  offset: it is not one of the above-center codes.
\<close>

theorem combining_code_from_class_table:
  "combining_code_from_class 200 = MAKE_COMBINING_CODE 2 0 0 1 128 128
 \<and> combining_code_from_class 202 = MAKE_COMBINING_CODE 2 1 0 1 128 128
 \<and> combining_code_from_class 204 = MAKE_COMBINING_CODE 2 2 0 1 128 128
 \<and> combining_code_from_class 208 = MAKE_COMBINING_CODE 3 0 3 2 128 128
 \<and> combining_code_from_class 210 = MAKE_COMBINING_CODE 3 2 3 0 128 128
 \<and> combining_code_from_class 212 = MAKE_COMBINING_CODE 0 0 2 1 128 128
 \<and> combining_code_from_class 214 = MAKE_COMBINING_CODE 0 1 2 1 128 128
 \<and> combining_code_from_class 216 = MAKE_COMBINING_CODE 0 2 2 1 128 128
 \<and> combining_code_from_class 218 = MAKE_COMBINING_CODE 2 0 0 1 122 128
 \<and> combining_code_from_class 220 = MAKE_COMBINING_CODE 2 1 0 1 122 128
 \<and> combining_code_from_class 222 = MAKE_COMBINING_CODE 2 2 0 1 122 128
 \<and> combining_code_from_class 224 = MAKE_COMBINING_CODE 3 0 3 2 128 122
 \<and> combining_code_from_class 226 = MAKE_COMBINING_CODE 3 2 3 0 128 133
 \<and> combining_code_from_class 228 = MAKE_COMBINING_CODE 0 0 2 1 133 128
 \<and> combining_code_from_class 230 = MAKE_COMBINING_CODE 0 1 2 1 133 128
 \<and> combining_code_from_class 232 = MAKE_COMBINING_CODE 0 2 2 1 133 128
 \<and> combining_code_from_class 233 = MAKE_COMBINING_CODE 2 2 0 2 122 128
 \<and> combining_code_from_class 234 = MAKE_COMBINING_CODE 0 2 2 2 133 128
 \<and> combining_code_from_class 240 = MAKE_COMBINING_CODE 2 1 0 1 122 128
 \<and> (class \<notin> {200, 202, 204, 208, 210, 212, 214, 216, 218, 220, 222, 224, 226, 228,
                230, 232, 233, 234, 240}
      \<longrightarrow> combining_code_from_class class = MAKE_COMBINING_CODE 3 1 3 1 128 128)
 \<and> COMBINING_CODE_BASE_Y (MAKE_COMBINING_CODE 3 1 3 1 128 128) = 3
 \<and> COMBINING_CODE_BASE_X (MAKE_COMBINING_CODE 3 1 3 1 128 128) = 1
 \<and> COMBINING_CODE_ADD_Y (MAKE_COMBINING_CODE 3 1 3 1 128 128) = 3
 \<and> COMBINING_CODE_ADD_X (MAKE_COMBINING_CODE 3 1 3 1 128 128) = 1
 \<and> COMBINING_CODE_OFF_Y (MAKE_COMBINING_CODE 3 1 3 1 128 128) = 128
 \<and> COMBINING_CODE_OFF_X (MAKE_COMBINING_CODE 3 1 3 1 128 128) = 128"
proof -
  have fallback: "combining_code_from_class class = MAKE_COMBINING_CODE 3 1 3 1 128 128"
    if "class \<notin> {200, 202, 204, 208, 210, 212, 214, 216, 218, 220, 222, 224, 226, 228,
                  230, 232, 233, 234, 240}"
    using that by (simp add: combining_code_from_class_def)
  have fields:
    "COMBINING_CODE_BASE_Y (MAKE_COMBINING_CODE 3 1 3 1 128 128) = 3"
    "COMBINING_CODE_BASE_X (MAKE_COMBINING_CODE 3 1 3 1 128 128) = 1"
    "COMBINING_CODE_ADD_Y (MAKE_COMBINING_CODE 3 1 3 1 128 128) = 3"
    "COMBINING_CODE_ADD_X (MAKE_COMBINING_CODE 3 1 3 1 128 128) = 1"
    "COMBINING_CODE_OFF_Y (MAKE_COMBINING_CODE 3 1 3 1 128 128) = 128"
    "COMBINING_CODE_OFF_X (MAKE_COMBINING_CODE 3 1 3 1 128 128) = 128"
    by (simp_all add: codec_defs)
  show ?thesis
    using fallback fields by (simp add: combining_code_from_class_def)
qed

text \<open>The theorem at class 1, which is not in the table.\<close>

theorem combining_code_from_class_table_witness:
  "(1::int) \<notin> {200, 202, 204, 208, 210, 212, 214, 216, 218, 220, 222, 224, 226, 228,
                230, 232, 233, 234, 240}
   \<and> combining_code_from_class 1 = MAKE_COMBINING_CODE 3 1 3 1 128 128
   \<and> COMBINING_CODE_BASE_Y (combining_code_from_class 1) = 3"
  using combining_code_from_class_table[of 1] by simp

text \<open>
  Claim C4 as stated fails on its last row: the code of class 1 is not an above-center
  code.  It differs from the codes of classes 214 and 230, which place the mark above
  the center of the base, and its two y fields are 3, the baseline.
\<close>

theorem combining_code_from_class_other_not_above:
  "placed_above (combining_code_from_class 214)
   \<and> placed_above (combining_code_from_class 230)
   \<and> \<not> placed_above (combining_code_from_class 1)
   \<and> combining_code_from_class 1 \<noteq> combining_code_from_class 214
   \<and> combining_code_from_class 1 \<noteq> combining_code_from_class 230
   \<and> COMBINING_CODE_BASE_Y (combining_code_from_class 1) = 3
   \<and> COMBINING_CODE_ADD_Y (combining_code_from_class 1) = 3"
  by (simp add: placed_above_def combining_code_from_class_def codec_defs)

subsection \<open>The visual order of glyphs\<close>

lemmas bidi_defs = rtl_category_def MbidiR_def MbidiAL_def MbidiRLE_def MbidiRLO_def
  sample_bidi_category_def combining_follower_def

lemma collect_logical_levels_zero:
  "\<forall>g \<in> set gs. \<not> rtl_category (bidi_category (gchar g)) \<Longrightarrow>
     \<forall>e \<in> set (collect_logical bidi_category i gs). snd (snd e) = 0"
proof (induction bidi_category i gs rule: collect_logical.induct)
  case (1 bidi_category i)
  show ?case by (simp add: collect_logical.simps)
next
  case (2 bidi_category i g gs)
  show ?case
  proof (cases "gtype g = GLYPH_ANCHOR")
    case True
    then show ?thesis by (simp add: collect_logical.simps)
  next
    case False
    have "\<forall>g \<in> set (dropWhile combining_follower gs). \<not> rtl_category (bidi_category (gchar g))"
      using "2.prems" by (auto dest: set_dropWhileD)
    from "2.IH"[OF False this] "2.prems" False show ?thesis
      by (simp add: collect_logical.simps)
  qed
qed

lemma visual_order_not_sensitive:
  assumes "\<not> orientation_reversed (control gstring)"
    and "\<forall>g \<in> set (glyphs gstring). \<not> rtl_category (bidi_category (gchar g))"
  shows "visual_order bidi_category gstring = gstring"
proof -
  have "\<forall>g \<in> set (drop 1 (glyphs gstring)). \<not> rtl_category (bidi_category (gchar g))"
    using assms(2) by (auto dest: in_set_dropD)
  from collect_logical_levels_zero[OF this, of 1]
  have "\<not> list_ex (\<lambda>l. l \<noteq> 0)
          (map (\<lambda>e. snd (snd e)) (collect_logical bidi_category 1 (drop 1 (glyphs gstring))))"
    by (simp add: list_ex_iff)
  with assms(1) show ?thesis by (simp add: visual_order_def Let_def)
qed

text \<open>
  Claim C5.  When \<open>orientation_reversed\<close> is off and no glyph's character has the bidi
  category R, AL, RLE or RLO, visual\_order returns the glyph string as it got it, and so
  does the last step of compose\_glyph\_string; when \<open>enable_bidi\<close> is off that step
  does not call visual\_order at all.  In both cases every \<open>bidi_level\<close> stays as
  compose\_glyph\_string initialised it, that is zero.
\<close>

theorem visual_order_without_rtl_unchanged:
  "(\<not> orientation_reversed (control gstring)
      \<and> (\<forall>g \<in> set (glyphs gstring). \<not> rtl_category (bidi_category (gchar g)))
     \<longrightarrow> visual_order bidi_category gstring = gstring
         \<and> compose_glyph_string_reorder bidi_category gstring = gstring)
   \<and> (\<not> enable_bidi (control gstring)
     \<longrightarrow> compose_glyph_string_reorder bidi_category gstring = gstring)
   \<and> ((\<not> enable_bidi (control gstring)
          \<or> \<not> orientation_reversed (control gstring)
            \<and> (\<forall>g \<in> set (glyphs gstring). \<not> rtl_category (bidi_category (gchar g))))
        \<and> (\<forall>g \<in> set (glyphs gstring). bidi_level g = 0)
     \<longrightarrow> (\<forall>g \<in> set (glyphs (compose_glyph_string_reorder bidi_category gstring)).
            bidi_level g = 0))"
proof -
  have a: "visual_order bidi_category gstring = gstring"
    if "\<not> orientation_reversed (control gstring)"
      and "\<forall>g \<in> set (glyphs gstring). \<not> rtl_category (bidi_category (gchar g))"
    using that by (rule visual_order_not_sensitive)
  have b: "compose_glyph_string_reorder bidi_category gstring = gstring"
    if "\<not> enable_bidi (control gstring)"
    using that by (simp add: compose_glyph_string_reorder_def)
  have c: "compose_glyph_string_reorder bidi_category gstring = gstring"
    if "\<not> orientation_reversed (control gstring)"
      and "\<forall>g \<in> set (glyphs gstring). \<not> rtl_category (bidi_category (gchar g))"
    using a[OF that] by (simp add: compose_glyph_string_reorder_def)
  show ?thesis using a b c by metis
qed

text \<open>
  The theorem at \<open>ab\<close> with bidi enabled, and at two Hebrew letters with bidi
  disabled.
\<close>

theorem visual_order_without_rtl_unchanged_witness:
  "\<not> orientation_reversed (control ab_only)
   \<and> list_all (\<lambda>g. \<not> rtl_category (sample_bidi_category (gchar g))) (glyphs ab_only)
   \<and> list_all (\<lambda>g. bidi_level g = 0) (glyphs ab_only)
   \<and> visual_order sample_bidi_category ab_only = ab_only
   \<and> list_all (\<lambda>g. bidi_level g = 0)
        (glyphs (compose_glyph_string_reorder sample_bidi_category ab_only))
   \<and> \<not> enable_bidi (control hebrew_only)
   \<and> list_all (\<lambda>g. rtl_category (sample_bidi_category (gchar g)))
        (butlast (tl (glyphs hebrew_only)))
   \<and> list_all (\<lambda>g. bidi_level g = 0) (glyphs hebrew_only)
   \<and> compose_glyph_string_reorder sample_bidi_category hebrew_only = hebrew_only
   \<and> list_all (\<lambda>g. bidi_level g = 0)
        (glyphs (compose_glyph_string_reorder sample_bidi_category hebrew_only))"
proof -
  have h1: "\<not> orientation_reversed (control ab_only)"
    and h2: "list_all (\<lambda>g. \<not> rtl_category (sample_bidi_category (gchar g))) (glyphs ab_only)"
    and h3: "list_all (\<lambda>g. bidi_level g = 0) (glyphs ab_only)"
    by (simp_all add: ab_only_def sample_defs bidi_defs)
  have k1: "\<not> enable_bidi (control hebrew_only)"
    and k2: "list_all (\<lambda>g. rtl_category (sample_bidi_category (gchar g)))
               (butlast (tl (glyphs hebrew_only)))"
    and k3: "list_all (\<lambda>g. bidi_level g = 0) (glyphs hebrew_only)"
    by (simp_all add: hebrew_only_def sample_defs bidi_defs)
  note t1 = visual_order_without_rtl_unchanged[of ab_only sample_bidi_category]
  note t2 = visual_order_without_rtl_unchanged[of hebrew_only sample_bidi_category]
  have r1: "visual_order sample_bidi_category ab_only = ab_only"
    using t1 h1 h2 by (simp add: list_all_iff)
  have r2: "list_all (\<lambda>g. bidi_level g = 0)
        (glyphs (compose_glyph_string_reorder sample_bidi_category ab_only))"
    using t1 h1 h2 h3 by (simp add: list_all_iff)
  have r3: "compose_glyph_string_reorder sample_bidi_category hebrew_only = hebrew_only"
    using t2 k1 by simp
  have r4: "list_all (\<lambda>g. bidi_level g = 0)
        (glyphs (compose_glyph_string_reorder sample_bidi_category hebrew_only))"
    using t2 k1 k3 by (simp add: list_all_iff)
  from h1 h2 h3 k1 k2 k3 r1 r2 r3 r4 show ?thesis by simp
qed









lemma length_cluster_starts: "length (cluster_starts i cs) = length cs"
  by (induction cs arbitrary: i) simp_all






lemma without_level_update [simp]: "without_level (g\<lparr>bidi_level := l\<rparr>) = without_level g"
  by (simp add: without_level_def)



subsection \<open>The layout of a combining cluster\<close>

lemma combine_mark_glyph:
  "gwidth (snd (combine_mark b g)) = 0"
  "gpos (snd (combine_mark b g)) = gpos g"
  "gto (snd (combine_mark b g)) = gto g"
  "gascent (snd (combine_mark b g)) = gascent g"
  "gdescent (snd (combine_mark b g)) = gdescent g"
  "glbearing (snd (combine_mark b g)) = glbearing g"
  "grbearing (snd (combine_mark b g)) = grbearing g"
  by (simp_all add: combine_mark_def Let_def)

lemma combine_mark_begin:
  "c_begin (fst (combine_mark b g)) = min (c_begin b) (gpos g)"
  by (simp add: combine_mark_def Let_def)

lemma combine_mark_end:
  "c_end (fst (combine_mark b g))
     = (if c_begin b > gpos g then c_end b else max (c_end b) (gto g))"
  by (simp add: combine_mark_def Let_def)

lemma combine_mark_top:
  "c_top (fst (combine_mark b g))
     = min (c_top b) (yoff (snd (combine_mark b g)) - gascent g)"
  by (simp add: combine_mark_def Let_def)

lemma combine_mark_bottom:
  "c_bottom (fst (combine_mark b g))
     = max (c_bottom b) (yoff (snd (combine_mark b g)) + gdescent g)"
  by (simp add: combine_mark_def Let_def)

lemma combine_mark_left_right:
  "c_left (fst (combine_mark b g)) \<le> c_left b"
  "c_right b \<le> c_right (fst (combine_mark b g))"
  "c_width (fst (combine_mark b g))
     = c_right (fst (combine_mark b g)) - c_left (fst (combine_mark b g))"
  by (simp_all add: combine_mark_def Let_def)

lemma Min_insert_min:
  "finite S \<Longrightarrow> Min (insert (min a x) S) = Min (insert a (insert x S))"
  by (cases "S = {}") (simp_all add: min.assoc)

lemma Max_insert_max:
  "finite S \<Longrightarrow> Max (insert (max a x) S) = Max (insert a (insert x S))"
  by (cases "S = {}") (simp_all add: max.assoc)

lemma combine_marks_fields:
  "map gpos (snd (combine_marks b ms)) = map gpos ms
   \<and> map gto (snd (combine_marks b ms)) = map gto ms
   \<and> map gascent (snd (combine_marks b ms)) = map gascent ms
   \<and> map gdescent (snd (combine_marks b ms)) = map gdescent ms
   \<and> map glbearing (snd (combine_marks b ms)) = map glbearing ms
   \<and> map grbearing (snd (combine_marks b ms)) = map grbearing ms"
  by (induction ms arbitrary: b)
     (simp_all add: combine_marks_Cons combine_mark_glyph del: combine_marks.simps(2))

lemma combine_marks_width:
  "m \<in> set (snd (combine_marks b ms)) \<Longrightarrow> gwidth m = 0"
  by (induction ms arbitrary: b)
     (auto simp add: combine_marks_Cons combine_mark_glyph simp del: combine_marks.simps(2))

lemma combine_marks_begin:
  "c_begin (fst (combine_marks b ms)) = Min (insert (c_begin b) (gpos ` set ms))"
proof (induction ms arbitrary: b)
  case Nil
  show ?case by simp
next
  case (Cons g gs)
  have "c_begin (fst (combine_marks b (g # gs)))
          = Min (insert (min (c_begin b) (gpos g)) (gpos ` set gs))"
    by (simp add: combine_marks_Cons Cons.IH combine_mark_begin del: combine_marks.simps(2))
  also have "\<dots> = Min (insert (c_begin b) (insert (gpos g) (gpos ` set gs)))"
    by (rule Min_insert_min) simp
  finally show ?case by simp
qed

lemma combine_marks_top:
  "c_top (fst (combine_marks b ms))
     = Min (insert (c_top b) ((\<lambda>m. yoff m - gascent m) ` set (snd (combine_marks b ms))))"
proof (induction ms arbitrary: b)
  case Nil
  show ?case by simp
next
  case (Cons g gs)
  define g1 where "g1 = snd (combine_mark b g)"
  define b1 where "b1 = fst (combine_mark b g)"
  define S where "S = (\<lambda>m. yoff m - gascent m) ` set (snd (combine_marks b1 gs))"
  have t1: "c_top b1 = min (c_top b) (yoff g1 - gascent g1)"
    by (simp add: b1_def g1_def combine_mark_top combine_mark_glyph)
  have "c_top (fst (combine_marks b (g # gs))) = c_top (fst (combine_marks b1 gs))"
    by (simp add: combine_marks_Cons b1_def del: combine_marks.simps(2))
  also have "\<dots> = Min (insert (min (c_top b) (yoff g1 - gascent g1)) S)"
    by (simp only: Cons.IH t1 S_def)
  also have "\<dots> = Min (insert (c_top b) (insert (yoff g1 - gascent g1) S))"
    by (rule Min_insert_min) (simp add: S_def)
  finally show ?case
    by (simp add: combine_marks_Cons S_def b1_def g1_def del: combine_marks.simps(2))
qed

lemma combine_marks_bottom:
  "c_bottom (fst (combine_marks b ms))
     = Max (insert (c_bottom b) ((\<lambda>m. yoff m + gdescent m) ` set (snd (combine_marks b ms))))"
proof (induction ms arbitrary: b)
  case Nil
  show ?case by simp
next
  case (Cons g gs)
  define g1 where "g1 = snd (combine_mark b g)"
  define b1 where "b1 = fst (combine_mark b g)"
  define S where "S = (\<lambda>m. yoff m + gdescent m) ` set (snd (combine_marks b1 gs))"
  have t1: "c_bottom b1 = max (c_bottom b) (yoff g1 + gdescent g1)"
    by (simp add: b1_def g1_def combine_mark_bottom combine_mark_glyph)
  have "c_bottom (fst (combine_marks b (g # gs))) = c_bottom (fst (combine_marks b1 gs))"
    by (simp add: combine_marks_Cons b1_def del: combine_marks.simps(2))
  also have "\<dots> = Max (insert (max (c_bottom b) (yoff g1 + gdescent g1)) S)"
    by (simp only: Cons.IH t1 S_def)
  also have "\<dots> = Max (insert (c_bottom b) (insert (yoff g1 + gdescent g1) S))"
    by (rule Max_insert_max) (simp add: S_def)
  finally show ?case
    by (simp add: combine_marks_Cons S_def b1_def g1_def del: combine_marks.simps(2))
qed

lemma combine_marks_box:
  "c_width b = c_right b - c_left b \<Longrightarrow>
     c_left (fst (combine_marks b ms)) \<le> c_left b
   \<and> c_right b \<le> c_right (fst (combine_marks b ms))
   \<and> c_width (fst (combine_marks b ms))
       = c_right (fst (combine_marks b ms)) - c_left (fst (combine_marks b ms))"
proof (induction ms arbitrary: b)
  case Nil
  then show ?case by simp
next
  case (Cons g gs)
  define b1 where "b1 = fst (combine_mark b g)"
  have b1: "c_left b1 \<le> c_left b" "c_right b \<le> c_right b1"
    "c_width b1 = c_right b1 - c_left b1"
    using combine_mark_left_right[of b g] by (simp_all add: b1_def)
  from Cons.IH[OF b1(3)] b1(1,2) show ?case
    by (simp add: combine_marks_Cons b1_def del: combine_marks.simps(2))
qed

lemma combine_marks_end_ge:
  "c_end b \<le> c_end (fst (combine_marks b ms))"
proof (induction ms arbitrary: b)
  case Nil
  show ?case by simp
next
  case (Cons g gs)
  define b1 where "b1 = fst (combine_mark b g)"
  have "c_end b \<le> c_end b1" by (simp add: b1_def combine_mark_end)
  with Cons.IH[of b1] show ?case
    by (simp add: combine_marks_Cons b1_def del: combine_marks.simps(2))
qed

lemma combine_marks_end_unit:
  "c_begin b < c_end b \<Longrightarrow> \<forall>m \<in> set ms. gto m = gpos m + 1 \<Longrightarrow>
     c_end (fst (combine_marks b ms)) = Max (insert (c_end b) (gto ` set ms))"
proof (induction ms arbitrary: b)
  case Nil
  show ?case by simp
next
  case (Cons g gs)
  define b1 where "b1 = fst (combine_mark b g)"
  from Cons.prems have u: "gto g = gpos g + 1" by simp
  have e1: "c_end b1 = max (c_end b) (gto g)"
    using u Cons.prems(1) by (simp add: b1_def combine_mark_end)
  have bg: "c_begin b1 = min (c_begin b) (gpos g)"
    by (simp add: b1_def combine_mark_begin)
  have inv: "c_begin b1 < c_end b1" using e1 bg Cons.prems(1) by simp
  have rest: "\<forall>m \<in> set gs. gto m = gpos m + 1" using Cons.prems(2) by simp
  have "c_end (fst (combine_marks b (g # gs))) = c_end (fst (combine_marks b1 gs))"
    by (simp add: combine_marks_Cons b1_def del: combine_marks.simps(2))
  also have "\<dots> = Max (insert (max (c_end b) (gto g)) (gto ` set gs))"
    using Cons.IH[OF inv rest] by (simp only: e1)
  also have "\<dots> = Max (insert (c_end b) (insert (gto g) (gto ` set gs)))"
    by (rule Max_insert_max) simp
  finally show ?case by simp
qed

lemma layout_cluster_unfold:
  "layout_cluster base marks =
     (let b = fst (combine_marks (cluster_init base) marks);
          marks1 = snd (combine_marks (cluster_init base) marks);
          shift = (if c_left b < - gwidth base then - gwidth base - c_left b else 0);
          extend = (if c_right b > 0 then c_right b else 0)
      in (map (\<lambda>m. m\<lparr>gpos := c_begin b, gto := c_end b\<rparr>)
            (base\<lparr>gascent := - c_top b, gdescent := c_bottom b,
                  glbearing := c_lbearing b + shift,
                  grbearing := c_rbearing b + shift + extend,
                  gwidth := gwidth base + shift + extend,
                  xoff := (if c_left b < - gwidth base then shift else xoff base),
                  right_padding := (if c_right b > 0 then True else right_padding base)\<rparr>
             # map (\<lambda>m. m\<lparr>xoff := xoff m - extend\<rparr>) marks1),
          c_lbearing b, c_rbearing b))"
  by (cases "combine_marks (cluster_init base) marks")
     (simp add: layout_cluster_def Let_def)

lemma layout_clusters_one_cluster:
  assumes "marks \<noteq> []" and "\<forall>m \<in> set marks. combining_code m \<noteq> 0"
  shows "snd (layout_clusters t (base # marks)) = fst (layout_cluster base marks)"
proof -
  have tw: "takeWhile (\<lambda>m. combining_code m \<noteq> 0) marks = marks"
    using assms(2) by simp
  have dw: "dropWhile (\<lambda>m. combining_code m \<noteq> 0) marks = []"
    using assms(2) by simp
  have c: "\<not> (marks = [] \<or> combining_code (hd marks) = 0)"
    using assms by (cases marks) simp_all
  obtain cl lb rb where l: "layout_cluster base marks = (cl, lb, rb)"
    by (cases "layout_cluster base marks")
  show ?thesis
    by (subst layout_clusters.simps) (simp add: c tw dw l layout_clusters.simps(1))
qed

lemma run_parts:
  assumes "take n (drop from G) = base0 # marks0"
  shows "G ! from = base0" and "take (n - 1) (drop (Suc from) G) = marks0"
    and "from < length G" and "length (base0 # marks0) \<le> n"
proof -
  from assms have ne: "drop from G \<noteq> []" by auto
  then show lt: "from < length G" by simp
  from assms have "hd (take n (drop from G)) = base0" by simp
  moreover have "n \<noteq> 0" using assms by (cases n) simp_all
  ultimately have "hd (drop from G) = base0" by (cases n) simp_all
  then show "G ! from = base0" using lt by (simp add: hd_drop_conv_nth)
  from assms have "tl (take n (drop from G)) = marks0" by simp
  then show "take (n - 1) (drop (Suc from) G) = marks0"
    by (simp add: tl_take tl_drop drop_Suc)
  from assms have "length (take n (drop from G)) = length (base0 # marks0)" by simp
  then show "length (base0 # marks0) \<le> n" by simp
qed

text \<open>
  Claim C7, as amended.  Let the glyphs from \<open>from\<close> up to \<open>to\<close> be a base and one or
  more glyphs with a combining code.  After layout\_glyphs the range is again a base and
  as many marks; every mark has the width 0; all members have the same \<open>pos\<close> and
  \<open>to\<close>, where \<open>pos\<close> is the least \<open>pos\<close> of the members and \<open>to\<close> is at least
  the base's, and the greatest \<open>to\<close> of the members when each member covers one
  character.  The base has \<open>ascent = - top\<close> and \<open>descent = bottom\<close> of the cluster's
  box, which are the greatest \<open>ascent - yoff\<close> and \<open>yoff + descent\<close> over the base
  (at \<open>yoff\<close> 0, with the font's metrics) and the marks, and its width is
  \<open>right - left\<close> of the box.  Its \<open>lbearing\<close> and \<open>rbearing\<close> are the bearings
  accumulated for the cluster, moved by the amount the base is shifted when the cluster
  reaches left of the base, and \<open>rbearing\<close> also by \<open>right\<close> when the cluster reaches
  past the base's advance.
\<close>

theorem layout_glyphs_cluster:
  assumes bound: "to \<le> used gstring"
    and range: "take (to - from) (drop from (glyphs gstring)) = base0 # marks0"
    and marks: "marks0 \<noteq> []"
    and codes: "\<forall>m \<in> set marks0. combining_code m \<noteq> 0"
  shows "\<exists>base marks.
      take (to - from) (drop from (glyphs (layout_glyphs find_metric gstring from to)))
        = base # marks
    \<and> length marks = length marks0
    \<and> (\<forall>m \<in> set marks. gwidth m = 0)
    \<and> (\<forall>g \<in> set (base # marks). gpos g = gpos base \<and> gto g = gto base)
    \<and> gpos base = Min (gpos ` set (base0 # marks0))
    \<and> gto base0 \<le> gto base
    \<and> (gpos base0 < gto base0 \<and> (\<forall>g \<in> set (base0 # marks0). gto g = gpos g + 1)
         \<longrightarrow> gto base = Max (gto ` set (base0 # marks0)))
    \<and> gascent base = - c_top (cluster_box_of find_metric gstring from to)
    \<and> gdescent base = c_bottom (cluster_box_of find_metric gstring from to)
    \<and> gascent base = Max (insert (m_ascent (find_metric base0))
                               ((\<lambda>m. gascent m - yoff m) ` set marks))
    \<and> gdescent base = Max (insert (m_descent (find_metric base0))
                                ((\<lambda>m. yoff m + gdescent m) ` set marks))
    \<and> gwidth base = c_right (cluster_box_of find_metric gstring from to)
                       - c_left (cluster_box_of find_metric gstring from to)
    \<and> glbearing base = c_lbearing (cluster_box_of find_metric gstring from to)
         + (if c_left (cluster_box_of find_metric gstring from to)
                 < - m_width (find_metric base0)
            then - m_width (find_metric base0)
                 - c_left (cluster_box_of find_metric gstring from to) else 0)
    \<and> grbearing base = c_rbearing (cluster_box_of find_metric gstring from to)
         + (if c_left (cluster_box_of find_metric gstring from to)
                 < - m_width (find_metric base0)
            then - m_width (find_metric base0)
                 - c_left (cluster_box_of find_metric gstring from to) else 0)
         + (if c_right (cluster_box_of find_metric gstring from to) > 0
            then c_right (cluster_box_of find_metric gstring from to) else 0)"
proof -
  define G where "G = glyphs gstring"
  define base1 where "base1 = set_metric find_metric base0"
  define marks1 where "marks1 = map (set_metric find_metric) marks0"
  define b where "b = fst (combine_marks (cluster_init base1) marks1)"
  define ms where "ms = snd (combine_marks (cluster_init base1) marks1)"
  define shift where "shift = (if c_left b < - gwidth base1 then - gwidth base1 - c_left b else 0)"
  define extend where "extend = (if c_right b > 0 then c_right b else 0)"
  define base where "base = base1\<lparr>gascent := - c_top b, gdescent := c_bottom b,
                  glbearing := c_lbearing b + shift,
                  grbearing := c_rbearing b + shift + extend,
                  gwidth := gwidth base1 + shift + extend,
                  xoff := (if c_left b < - gwidth base1 then shift else xoff base1),
                  right_padding := (if c_right b > 0 then True else right_padding base1),
                  gpos := c_begin b, gto := c_end b\<rparr>"
  define mks where "mks = map (\<lambda>m. m\<lparr>xoff := xoff m - extend, gpos := c_begin b, gto := c_end b\<rparr>) ms"
  note rp = run_parts[OF range[folded G_def]]
  have lt: "from < to" using rp(4) by simp
  have lenG: "from < length G" by (rule rp(3))
  have cl: "fst (layout_cluster base1 marks1) = base # mks"
    by (simp add: layout_cluster_unfold Let_def base_def mks_def b_def ms_def shift_def
          extend_def)
  have codes1: "\<forall>m \<in> set marks1. combining_code m \<noteq> 0"
    using codes by (simp add: marks1_def set_metric_def)
  have ne1: "marks1 \<noteq> []" using marks by (simp add: marks1_def)
  have metric: "mfont_get_metric find_metric (take (to - from) (drop from G)) = base1 # marks1"
    by (simp add: mfont_get_metric_def range[folded G_def] base1_def marks1_def)
  have res: "glyphs (layout_glyphs find_metric gstring from to)
               = take from G @ (base # mks) @ drop to G"
  proof -
    obtain t run where lc: "layout_clusters
             \<lparr>g_physical_ascent = physical_ascent gstring,
              g_physical_descent = physical_descent gstring,
              g_width = 0, g_lbearing = 0, g_rbearing = 0\<rparr> (base1 # marks1) = (t, run)"
      by (cases "layout_clusters
             \<lparr>g_physical_ascent = physical_ascent gstring,
              g_physical_descent = physical_descent gstring,
              g_width = 0, g_lbearing = 0, g_rbearing = 0\<rparr> (base1 # marks1)")
    have "snd (layout_clusters
             \<lparr>g_physical_ascent = physical_ascent gstring,
              g_physical_descent = physical_descent gstring,
              g_width = 0, g_lbearing = 0, g_rbearing = 0\<rparr> (base1 # marks1)) = base # mks"
      by (simp only: layout_clusters_one_cluster[OF ne1 codes1] cl)
    then have "run = base # mks" by (simp only: lc snd_conv)
    then show ?thesis
      using lc by (simp add: layout_glyphs_def metric[unfolded G_def] G_def)
  qed
  have lms: "length ms = length marks0"
    by (simp add: ms_def combine_marks_length marks1_def)
  have lmks: "length mks = length marks0" by (simp add: mks_def lms)
  have lrun: "length (base # mks) = to - from"
  proof -
    have "length (take (to - from) (drop from G)) = length (base0 # marks0)"
      by (simp only: range[folded G_def])
    moreover have "length (take (to - from) (drop from G)) = to - from"
      using bound by (simp add: used_def G_def)
    ultimately show ?thesis using lmks by simp
  qed
  have seg: "take (to - from) (drop from (glyphs (layout_glyphs find_metric gstring from to)))
               = base # mks"
  proof -
    have "drop from (take from G @ (base # mks) @ drop to G) = (base # mks) @ drop to G"
      using lenG by simp
    moreover have "take (length (base # mks)) ((base # mks) @ drop to G) = base # mks"
      by simp
    ultimately show ?thesis unfolding res lrun[symmetric] by simp
  qed
  have box: "cluster_box_of find_metric gstring from to = b"
  proof -
    have "to - Suc from = to - from - 1" by simp
    then show ?thesis
      using rp(1) rp(2)
      by (simp add: cluster_box_of_def b_def base1_def marks1_def G_def)
  qed
  have w0: "\<forall>m \<in> set mks. gwidth m = 0"
    using combine_marks_width[of _ "cluster_init base1" marks1]
    by (auto simp: mks_def ms_def)
  have same: "\<forall>g \<in> set (base # mks). gpos g = gpos base \<and> gto g = gto base"
    by (auto simp: base_def mks_def)
  have f: "map gpos ms = map gpos marks1" "map gto ms = map gto marks1"
    "map gascent ms = map gascent marks1" "map gdescent ms = map gdescent marks1"
    using combine_marks_fields[of "cluster_init base1" marks1] by (simp_all add: ms_def)
  have pos1: "gpos ` set marks1 = gpos ` set marks0" "gto ` set marks1 = gto ` set marks0"
    by (simp_all add: marks1_def image_image set_metric_def)
  have leastpos: "gpos base = Min (gpos ` set (base0 # marks0))"
  proof -
    have "gpos base = c_begin b" by (simp add: base_def)
    also have "\<dots> = Min (insert (gpos base1) (gpos ` set marks1))"
      by (simp add: b_def combine_marks_begin cluster_init_def)
    finally show ?thesis by (simp add: pos1 base1_def set_metric_def)
  qed
  have endge: "gto base0 \<le> gto base"
    using combine_marks_end_ge[of "cluster_init base1" marks1]
    by (simp add: base_def b_def cluster_init_def base1_def set_metric_def)
  have endmax: "gto base = Max (gto ` set (base0 # marks0))"
    if "gpos base0 < gto base0" and "\<forall>g \<in> set (base0 # marks0). gto g = gpos g + 1"
  proof -
    have i: "c_begin (cluster_init base1) < c_end (cluster_init base1)"
      using that(1) by (simp add: cluster_init_def base1_def set_metric_def)
    have u: "\<forall>m \<in> set marks1. gto m = gpos m + 1"
      using that(2) by (simp add: marks1_def set_metric_def)
    have "gto base = c_end b" by (simp add: base_def)
    also have "\<dots> = Max (insert (gto base1) (gto ` set marks1))"
      using combine_marks_end_unit[OF i u] by (simp add: b_def cluster_init_def)
    finally show ?thesis by (simp add: pos1 base1_def set_metric_def)
  qed
  have asc: "gascent base = - c_top b" and desc: "gdescent base = c_bottom b"
    by (simp_all add: base_def)
  have yimg: "(\<lambda>m. yoff m - gascent m) ` set mks = (\<lambda>m. yoff m - gascent m) ` set ms"
    "(\<lambda>m. yoff m + gdescent m) ` set mks = (\<lambda>m. yoff m + gdescent m) ` set ms"
    by (auto simp: mks_def image_iff)
  have ascmax: "gascent base = Max (insert (m_ascent (find_metric base0))
                               ((\<lambda>m. gascent m - yoff m) ` set mks))"
  proof -
    have "c_top b = Min (insert (- gascent base1) ((\<lambda>m. yoff m - gascent m) ` set ms))"
      using combine_marks_top[of "cluster_init base1" marks1]
      by (simp add: b_def ms_def cluster_init_def)
    then have "- c_top b
        = Max (uminus ` insert (- gascent base1) ((\<lambda>m. yoff m - gascent m) ` set ms))"
      by (simp only: minus_Min_eq_Max[OF finite.insertI[OF finite_imageI[OF finite_set]]
                                       insert_not_empty])
    also have "uminus ` insert (- gascent base1) ((\<lambda>m. yoff m - gascent m) ` set ms)
        = insert (gascent base1) ((\<lambda>m. gascent m - yoff m) ` set ms)"
      by (simp add: image_image)
    also have "(\<lambda>m. gascent m - yoff m) ` set ms = (\<lambda>m. gascent m - yoff m) ` set mks"
      by (auto simp: mks_def image_iff)
    finally show ?thesis by (simp add: asc base1_def set_metric_def)
  qed
  have descmax: "gdescent base = Max (insert (m_descent (find_metric base0))
                                ((\<lambda>m. yoff m + gdescent m) ` set mks))"
  proof -
    have "c_bottom b = Max (insert (gdescent base1) ((\<lambda>m. yoff m + gdescent m) ` set ms))"
      using combine_marks_bottom[of "cluster_init base1" marks1]
      by (simp add: b_def ms_def cluster_init_def)
    moreover have "gdescent base1 = m_descent (find_metric base0)"
      by (simp add: base1_def set_metric_def)
    ultimately show ?thesis by (simp only: desc yimg)
  qed
  have bx: "c_left b \<le> - gwidth base1" "0 \<le> c_right b" "c_width b = c_right b - c_left b"
    using combine_marks_box[of "cluster_init base1" marks1]
    by (simp_all add: b_def cluster_init_def)
  have wd: "gwidth base = c_right b - c_left b"
    using bx by (simp add: base_def shift_def extend_def)
  have mw: "gwidth base1 = m_width (find_metric base0)"
    by (simp add: base1_def set_metric_def)
  have lb: "glbearing base = c_lbearing b + shift"
    and rb: "grbearing base = c_rbearing b + shift + extend"
    by (simp_all add: base_def)
  have "take (to - from) (drop from (glyphs (layout_glyphs find_metric gstring from to)))
        = base # mks
    \<and> length mks = length marks0
    \<and> (\<forall>m \<in> set mks. gwidth m = 0)
    \<and> (\<forall>g \<in> set (base # mks). gpos g = gpos base \<and> gto g = gto base)
    \<and> gpos base = Min (gpos ` set (base0 # marks0))
    \<and> gto base0 \<le> gto base
    \<and> (gpos base0 < gto base0 \<and> (\<forall>g \<in> set (base0 # marks0). gto g = gpos g + 1)
         \<longrightarrow> gto base = Max (gto ` set (base0 # marks0)))
    \<and> gascent base = - c_top b
    \<and> gdescent base = c_bottom b
    \<and> gascent base = Max (insert (m_ascent (find_metric base0))
                               ((\<lambda>m. gascent m - yoff m) ` set mks))
    \<and> gdescent base = Max (insert (m_descent (find_metric base0))
                                ((\<lambda>m. yoff m + gdescent m) ` set mks))
    \<and> gwidth base = c_right b - c_left b
    \<and> glbearing base = c_lbearing b + shift
    \<and> grbearing base = c_rbearing b + shift + extend"
    using seg lmks w0 same leastpos endge endmax asc desc ascmax descmax wd lb rb by blast
  then show ?thesis
    unfolding box shift_def extend_def mw by blast
qed

lemmas layout_defs = layout_glyphs_def layout_clusters.simps layout_cluster_def
  combine_mark_def cluster_init_def add_to_totals_def layout_single_def mfont_get_metric_def
  set_metric_def font_size_of_def cluster_box_of_def sample_metric_def i_tilde_def

text \<open>The theorem at \<open>i\<close> with a tilde that is wider than the letter.\<close>

theorem layout_glyphs_cluster_witness:
  "3 \<le> used i_tilde
   \<and> take (3 - 1) (drop 1 (glyphs i_tilde))
       = char_glyph GLYPH_CHAR 105 0 # [mark_glyph 0x303 1 230]
   \<and> combining_code (mark_glyph 0x303 1 230) \<noteq> 0
   \<and> (\<exists>base marks.
         take (3 - 1) (drop 1 (glyphs (layout_glyphs sample_metric i_tilde 1 3))) = base # marks
         \<and> length marks = 1 \<and> (\<forall>m \<in> set marks. gwidth m = 0)
         \<and> (\<forall>g \<in> set (base # marks). gpos g = gpos base \<and> gto g = gto base))
   \<and> map (\<lambda>g. (gpos g, gto g, gwidth g, gascent g, gdescent g))
        (take 2 (drop 1 (glyphs (layout_glyphs sample_metric i_tilde 1 3))))
       = [(0, 2, 20, 13, 0), (0, 2, 0, 3, 0)]"
proof -
  have h1: "3 \<le> used i_tilde"
    by (simp add: used_def i_tilde_def sample_gstring_def)
  have h2: "take (3 - 1) (drop 1 (glyphs i_tilde))
       = char_glyph GLYPH_CHAR 105 0 # [mark_glyph 0x303 1 230]"
    by (simp add: i_tilde_def sample_gstring_def)
  have h3: "[mark_glyph 0x303 1 230] \<noteq> []" by simp
  have h4: "\<forall>m \<in> set [mark_glyph 0x303 1 230]. combining_code m \<noteq> 0"
    by (simp add: mark_glyph_def char_glyph_def MAKE_COMBINING_CODE_BY_CLASS_def)
  from layout_glyphs_cluster[OF h1 h2 h3 h4, of sample_metric]
  have ex: "\<exists>base marks.
         take (3 - 1) (drop 1 (glyphs (layout_glyphs sample_metric i_tilde 1 3))) = base # marks
         \<and> length marks = 1 \<and> (\<forall>m \<in> set marks. gwidth m = 0)
         \<and> (\<forall>g \<in> set (base # marks). gpos g = gpos base \<and> gto g = gto base)"
    by (elim exE conjE) (intro exI conjI, assumption, simp, assumption+)
  have e: "map (\<lambda>g. (gpos g, gto g, gwidth g, gascent g, gdescent g))
        (take 2 (drop 1 (glyphs (layout_glyphs sample_metric i_tilde 1 3))))
       = [(0, 2, 20, 13, 0), (0, 2, 0, 3, 0)]"
    by (simp add: layout_defs sample_defs codec_defs combining_code_from_class_def Let_def)
  from h1 h2 h4 ex e show ?thesis by simp
qed

text \<open>
  Claim C7 as stated fails for the bearings of the base.  For \<open>i\<close> (10 wide) with a
  centred tilde (20 wide) the box of the cluster has the bearings 0 and 20, which are
  also what layout\_glyphs reports for the run in \<open>sub_lbearing\<close> and
  \<open>sub_rbearing\<close>; the base ends with \<open>lbearing\<close> 5 and \<open>rbearing\<close> 30, because
  both are moved with the base (by 5) and \<open>rbearing\<close> again by the overhang (5).
\<close>

theorem layout_glyphs_base_bearings_shifted:
  "c_lbearing (cluster_box_of sample_metric i_tilde 1 3) = 0
   \<and> c_rbearing (cluster_box_of sample_metric i_tilde 1 3) = 20
   \<and> sub_lbearing (layout_glyphs sample_metric i_tilde 1 3) = 0
   \<and> sub_rbearing (layout_glyphs sample_metric i_tilde 1 3) = 20
   \<and> gwidth (glyphs (layout_glyphs sample_metric i_tilde 1 3) ! 1) = 20
   \<and> glbearing (glyphs (layout_glyphs sample_metric i_tilde 1 3) ! 1) = 5
   \<and> grbearing (glyphs (layout_glyphs sample_metric i_tilde 1 3) ! 1) = 30"
  by (simp add: layout_defs sample_defs codec_defs combining_code_from_class_def Let_def)

subsection \<open>Reordering of combining characters\<close>

lemma reorder_pass_stable:
  "reorder_pass prev gs = (r, b) \<Longrightarrow>
     filter (\<lambda>g. glyph_class g = k) r = filter (\<lambda>g. glyph_class g = k) (prev # gs)"
proof (induction gs arbitrary: prev r b)
  case Nil
  then show ?case by auto
next
  case (Cons g gs)
  show ?case
  proof (cases "glyph_class g > 0 \<and> glyph_class prev > glyph_class g")
    case True
    obtain r' b' where p: "reorder_pass prev gs = (r', b')" by (cases "reorder_pass prev gs")
    with Cons.prems True have r: "r = g # r'" by simp
    from Cons.IH[OF p] True show ?thesis unfolding r by auto
  next
    case False
    obtain r' b' where p: "reorder_pass g gs = (r', b')" by (cases "reorder_pass g gs")
    with Cons.prems False have r: "r = prev # r'" by auto
    from Cons.IH[OF p] show ?thesis unfolding r by auto
  qed
qed

lemma reorder_pass_fixed:
  "reorder_pass prev gs = (r, b) \<Longrightarrow> i < length (prev # gs) \<Longrightarrow>
     glyph_class ((prev # gs) ! i) \<le> 0 \<Longrightarrow> r ! i = (prev # gs) ! i"
proof (induction gs arbitrary: prev r b i)
  case Nil
  then show ?case by auto
next
  case (Cons g gs)
  show ?case
  proof (cases "glyph_class g > 0 \<and> glyph_class prev > glyph_class g")
    case True
    obtain r' b' where p: "reorder_pass prev gs = (r', b')" by (cases "reorder_pass prev gs")
    with Cons.prems True have r: "r = g # r'" by simp
    have "i \<noteq> 0"
    proof
      assume "i = 0"
      with True Cons.prems(3) show False by simp
    qed
    moreover have "i \<noteq> Suc 0"
    proof
      assume "i = Suc 0"
      with True Cons.prems(3) show False by simp
    qed
    ultimately obtain j where i: "i = Suc (Suc j)" by (cases i; cases "i - 1") auto
    with Cons.prems have "Suc j < length (prev # gs)" "glyph_class ((prev # gs) ! Suc j) \<le> 0"
      by simp_all
    from Cons.IH[OF p this] show ?thesis unfolding r i by simp
  next
    case False
    obtain r' b' where p: "reorder_pass g gs = (r', b')" by (cases "reorder_pass g gs")
    with Cons.prems False have r: "r = prev # r'" by auto
    show ?thesis
    proof (cases i)
      case 0
      then show ?thesis unfolding r by simp
    next
      case (Suc j)
      with Cons.prems have "j < length (g # gs)" "glyph_class ((g # gs) ! j) \<le> 0" by simp_all
      from Cons.IH[OF p this] show ?thesis unfolding r Suc by simp
    qed
  qed
qed

lemma reorder_pass_unchanged:
  "reorder_pass prev gs = (r, False) \<Longrightarrow> r = prev # gs \<and> settled (prev # gs)"
proof (induction gs arbitrary: prev r)
  case Nil
  then show ?case by auto
next
  case (Cons g gs)
  show ?case
  proof (cases "glyph_class g > 0 \<and> glyph_class prev > glyph_class g")
    case True
    with Cons.prems show ?thesis by (auto split: prod.splits)
  next
    case False
    obtain r' b' where p: "reorder_pass g gs = (r', b')" by (cases "reorder_pass g gs")
    with Cons.prems False have r: "r = prev # r'" and "b' = False" by auto
    with p Cons.IH[of g r'] False show ?thesis by auto
  qed
qed

lemma reorder_loop_mset: "mset (reorder_loop gs) = mset gs"
proof (induction gs rule: reorder_loop.induct)
  case 1
  show ?case by (simp add: reorder_loop.simps)
next
  case (2 prev gs)
  obtain r b where p: "reorder_pass prev gs = (r, b)" by (cases "reorder_pass prev gs")
  show ?case
  proof (cases b)
    case True
    with p "2.IH"[OF p[symmetric] True] reorder_pass_mset[OF p] show ?thesis
      by (simp add: reorder_loop.simps)
  next
    case False
    with p reorder_pass_mset[OF p] show ?thesis by (simp add: reorder_loop.simps)
  qed
qed

lemma reorder_loop_length: "length (reorder_loop gs) = length gs"
  using reorder_loop_mset[of gs] by (metis size_mset)

lemma reorder_loop_stable:
  "filter (\<lambda>g. glyph_class g = k) (reorder_loop gs) = filter (\<lambda>g. glyph_class g = k) gs"
proof (induction gs rule: reorder_loop.induct)
  case 1
  show ?case by (simp add: reorder_loop.simps)
next
  case (2 prev gs)
  obtain r b where p: "reorder_pass prev gs = (r, b)" by (cases "reorder_pass prev gs")
  show ?case
  proof (cases b)
    case True
    with p "2.IH"[OF p[symmetric] True] reorder_pass_stable[OF p, of k] show ?thesis
      by (simp add: reorder_loop.simps)
  next
    case False
    with p reorder_pass_stable[OF p, of k] show ?thesis by (simp add: reorder_loop.simps)
  qed
qed

lemma reorder_loop_fixed:
  "i < length gs \<Longrightarrow> glyph_class (gs ! i) \<le> 0 \<Longrightarrow> reorder_loop gs ! i = gs ! i"
proof (induction gs rule: reorder_loop.induct)
  case 1
  then show ?case by simp
next
  case (2 prev gs)
  obtain r b where p: "reorder_pass prev gs = (r, b)" by (cases "reorder_pass prev gs")
  have fx: "r ! i = (prev # gs) ! i"
    using reorder_pass_fixed[OF p "2.prems"] .
  have len: "length r = length (prev # gs)"
    using reorder_pass_mset[OF p] by (metis size_mset)
  show ?case
  proof (cases b)
    case True
    have "reorder_loop r ! i = r ! i"
      using "2.IH"[OF p[symmetric] True] "2.prems" fx len by simp
    with p True fx show ?thesis by (simp add: reorder_loop.simps)
  next
    case False
    with p fx show ?thesis by (simp add: reorder_loop.simps)
  qed
qed

lemma reorder_loop_settled: "settled (reorder_loop gs)"
proof (induction gs rule: reorder_loop.induct)
  case 1
  show ?case by (simp add: reorder_loop.simps)
next
  case (2 prev gs)
  obtain r b where p: "reorder_pass prev gs = (r, b)" by (cases "reorder_pass prev gs")
  show ?case
  proof (cases b)
    case True
    with p "2.IH"[OF p[symmetric] True] show ?thesis by (simp add: reorder_loop.simps)
  next
    case False
    with p reorder_pass_unchanged[of prev gs r] show ?thesis by (simp add: reorder_loop.simps)
  qed
qed

lemma settled_nth:
  "settled gs \<Longrightarrow> Suc i < length gs \<Longrightarrow> 0 < glyph_class (gs ! Suc i)
     \<Longrightarrow> glyph_class (gs ! i) \<le> glyph_class (gs ! Suc i)"
proof (induction gs arbitrary: i rule: settled.induct)
  case (1 a b gs)
  then show ?case by (cases i) auto
qed simp_all

lemma settled_sorted:
  "settled gs \<Longrightarrow> \<forall>g \<in> set gs. 0 < glyph_class g \<Longrightarrow> sorted (map glyph_class gs)"
proof (induction gs rule: settled.induct)
  case (1 a b gs)
  then have s: "sorted (map glyph_class (b # gs))" and ab: "glyph_class a \<le> glyph_class b"
    by auto
  from s ab show ?case by (auto simp: order_trans)
qed simp_all

text \<open>
  Claim C8, as amended.  On the range \<open>[from, to)\<close> of a glyph string,
  reorder\_combining\_chars keeps the multiset of the glyphs and the number of glyphs;
  it leaves every glyph outside the range and every glyph whose class is zero or
  negative at its index; it keeps the relative order of the glyphs of each class
  (stability); and in the result no glyph of positive class stands right after a glyph
  of greater class.  So each run of glyphs of positive class is sorted into
  non-decreasing order of the class, and a range all of whose glyphs have a positive
  class is sorted as a whole.
\<close>

theorem reorder_combining_chars_sorts_positive_runs:
  assumes "from < to" and "to \<le> used gstring"
  shows "mset (glyphs (reorder_combining_chars gstring from to)) = mset (glyphs gstring)
       \<and> length (glyphs (reorder_combining_chars gstring from to)) = length (glyphs gstring)
       \<and> (\<forall>i < length (glyphs gstring).
             (i < from \<or> to \<le> i \<or> glyph_class (glyphs gstring ! i) \<le> 0)
             \<longrightarrow> glyphs (reorder_combining_chars gstring from to) ! i = glyphs gstring ! i)
       \<and> (\<forall>k. filter (\<lambda>g. glyph_class g = k) (glyphs (reorder_combining_chars gstring from to))
               = filter (\<lambda>g. glyph_class g = k) (glyphs gstring))
       \<and> (\<forall>i. from \<le> i \<and> Suc i < to
               \<and> 0 < glyph_class (glyphs (reorder_combining_chars gstring from to) ! Suc i)
             \<longrightarrow> glyph_class (glyphs (reorder_combining_chars gstring from to) ! i)
                   \<le> glyph_class (glyphs (reorder_combining_chars gstring from to) ! Suc i))
       \<and> ((\<forall>i. from \<le> i \<and> i < to \<longrightarrow> 0 < glyph_class (glyphs gstring ! i))
             \<longrightarrow> sorted (map glyph_class
                   (take (to - from) (drop from (glyphs (reorder_combining_chars gstring from to))))))"
proof -
  define G where "G = glyphs gstring"
  define seg where "seg = take (to - from) (drop from G)"
  define G' where "G' = glyphs (reorder_combining_chars gstring from to)"
  have G': "G' = take from G @ reorder_loop seg @ drop to G"
    by (simp add: G'_def reorder_combining_chars_def seg_def G_def)
  have lenG: "to \<le> length G" using assms(2) by (simp add: used_def G_def)
  have lseg: "length seg = to - from" using lenG assms(1) by (simp add: seg_def)
  have split: "G = take from G @ seg @ drop to G"
  proof -
    have "drop from G = take (to - from) (drop from G) @ drop (to - from) (drop from G)"
      by (rule append_take_drop_id[symmetric])
    moreover have "drop (to - from) (drop from G) = drop to G"
      using assms(1) by simp
    ultimately have "drop from G = seg @ drop to G" by (simp only: seg_def)
    then show ?thesis by (metis append_take_drop_id)
  qed
  have ltake: "length (take from G) = from" using lenG assms(1) by simp
  have c1: "mset G' = mset G"
  proof -
    have "mset G = mset (take from G @ seg @ drop to G)"
      by (rule arg_cong[OF split])
    then show ?thesis by (simp add: G' reorder_loop_mset)
  qed
  have c2: "length G' = length G"
    using c1 by (metis size_mset)
  have nth_seg: "(take from G @ xs @ drop to G) ! i = xs ! (i - from)"
    if "from \<le> i" "i < to" "length xs = to - from" for xs i
    using that ltake by (simp add: nth_append)
  have c3: "G' ! i = G ! i"
    if i: "i < length G" and h: "i < from \<or> to \<le> i \<or> glyph_class (G ! i) \<le> 0" for i
  proof (cases "i < from \<or> to \<le> i")
    case True
    then show ?thesis
    proof
      assume "i < from"
      moreover have "G ! i = (take from G @ seg @ drop to G) ! i"
        by (rule arg_cong[OF split, of "\<lambda>xs. xs ! i"])
      ultimately show ?thesis using ltake by (simp add: G' nth_append)
    next
      assume "to \<le> i"
      then have "\<And>xs. length xs = to - from \<Longrightarrow>
                 (take from G @ xs @ drop to G) ! i = drop to G ! (i - to)"
        using ltake assms(1) by (simp add: nth_append)
      moreover have "G ! i = (take from G @ seg @ drop to G) ! i"
        by (rule arg_cong[OF split, of "\<lambda>xs. xs ! i"])
      ultimately show ?thesis
        by (simp add: G' reorder_loop_length lseg)
    qed
  next
    case False
    then have r: "from \<le> i" "i < to" by simp_all
    with h have cl: "glyph_class (G ! i) \<le> 0" by simp
    have "G ! i = (take from G @ seg @ drop to G) ! i"
      by (rule arg_cong[OF split, of "\<lambda>xs. xs ! i"])
    then have gi: "G ! i = seg ! (i - from)"
      by (simp only: nth_seg[OF r lseg])
    have "G' ! i = reorder_loop seg ! (i - from)"
      unfolding G' by (rule nth_seg[OF r]) (simp add: reorder_loop_length lseg)
    also have "\<dots> = seg ! (i - from)"
      using r lseg cl gi by (intro reorder_loop_fixed) simp_all
    finally show ?thesis using gi by simp
  qed
  have c4: "filter (\<lambda>g. glyph_class g = k) G' = filter (\<lambda>g. glyph_class g = k) G" for k
  proof -
    have "filter (\<lambda>g. glyph_class g = k) G
            = filter (\<lambda>g. glyph_class g = k) (take from G @ seg @ drop to G)"
      by (rule arg_cong[OF split])
    then show ?thesis by (simp add: G' reorder_loop_stable)
  qed
  have c5: "glyph_class (G' ! i) \<le> glyph_class (G' ! Suc i)"
    if "from \<le> i" "Suc i < to" "0 < glyph_class (G' ! Suc i)" for i
  proof -
    have l: "length (reorder_loop seg) = to - from" by (simp add: reorder_loop_length lseg)
    have a: "G' ! i = reorder_loop seg ! (i - from)"
      unfolding G' using that by (intro nth_seg[OF _ _ l]) simp_all
    have b: "G' ! Suc i = reorder_loop seg ! Suc (i - from)"
      unfolding G' using that nth_seg[OF _ _ l, of "Suc i"] by (simp add: Suc_diff_le)
    have "Suc (i - from) < length (reorder_loop seg)" using that l by simp
    from settled_nth[OF reorder_loop_settled this] that(3) show ?thesis
      unfolding a b by simp
  qed
  have c6: "sorted (map glyph_class (take (to - from) (drop from G')))"
    if pos: "\<forall>i. from \<le> i \<and> i < to \<longrightarrow> 0 < glyph_class (G ! i)"
  proof -
    have "take (to - from) (drop from G') = reorder_loop seg"
      unfolding G' using ltake by (simp add: reorder_loop_length lseg)
    moreover have "\<forall>g \<in> set (reorder_loop seg). 0 < glyph_class g"
    proof -
      have "\<forall>g \<in> set seg. 0 < glyph_class g"
      proof
        fix g assume "g \<in> set seg"
        then obtain j where j: "j < length seg" "seg ! j = g" by (auto simp: in_set_conv_nth)
        moreover have "G ! (from + j) = (take from G @ seg @ drop to G) ! (from + j)"
          by (rule arg_cong[OF split, of "\<lambda>xs. xs ! (from + j)"])
        ultimately have "G ! (from + j) = seg ! j"
          using lseg nth_seg[of "from + j" seg] by simp
        with j pos lseg show "0 < glyph_class g" by (metis add.commute le_add2 less_diff_conv)
      qed
      moreover have "set (reorder_loop seg) = set seg"
        by (metis reorder_loop_mset set_mset_mset)
      ultimately show ?thesis by simp
    qed
    ultimately show ?thesis using settled_sorted[OF reorder_loop_settled] by simp
  qed
  from c1 c2 c3 c4 c5 c6 show ?thesis unfolding G'_def G_def by blast
qed

text \<open>
  The theorem on \<open>A\<close>, acute (230), dot below (220), \<open>B\<close>, with the range that
  compose\_glyph\_string passes: the first mark up to and with the glyph after the last.
\<close>

theorem reorder_combining_chars_sorts_positive_runs_witness:
  "(2::nat) < 5 \<and> 5 \<le> used marks_230_220
   \<and> mset (glyphs (reorder_combining_chars marks_230_220 2 5)) = mset (glyphs marks_230_220)
   \<and> map glyph_class (glyphs (reorder_combining_chars marks_230_220 2 5))
       = [0, 0, 220, 230, 0, 0]"
proof -
  have h: "(2::nat) < 5" "5 \<le> used marks_230_220"
    by (simp_all add: used_def marks_230_220_def sample_gstring_def)
  have e: "map glyph_class (glyphs (reorder_combining_chars marks_230_220 2 5))
             = [0, 0, 220, 230, 0, 0]"
    by (simp add: reorder_combining_chars_def marks_230_220_def sample_defs reorder_loop.simps
         glyph_class_def COMBINING_CODE_CLASS_def MAKE_COMBINING_CODE_BY_CLASS_def)
  from reorder_combining_chars_sorts_positive_runs[OF h]
  have "mset (glyphs (reorder_combining_chars marks_230_220 2 5)) = mset (glyphs marks_230_220)"
    by blast
  with h e show ?thesis by simp
qed

text \<open>
  Claim C8 as stated fails: the range is not always left in non-decreasing order.  A
  mark of class 0 between a mark of class 230 and one of class 220 is never swapped
  (the test \<open>COMBINING_CODE_CLASS (g->combining_code) > 0\<close>), and neither is the glyph
  that ends the range, so the classes stay 230, 0, 220, 0.
\<close>

theorem reorder_combining_chars_class_zero_blocks:
  "map glyph_class (take 4 (drop 2 (glyphs marks_230_0_220))) = [230, 0, 220, 0]
   \<and> map glyph_class (take 4 (drop 2 (glyphs (reorder_combining_chars marks_230_0_220 2 6))))
       = [230, 0, 220, 0]
   \<and> \<not> sorted (map glyph_class
         (take 4 (drop 2 (glyphs (reorder_combining_chars marks_230_0_220 2 6)))))"
  by (simp add: reorder_combining_chars_def marks_230_0_220_def sample_defs reorder_loop.simps
       glyph_class_def COMBINING_CODE_CLASS_def MAKE_COMBINING_CODE_BY_CLASS_def)

subsection \<open>The ascent and descent of the line\<close>

subsection \<open>The layout of the sample \<open>a\<close>, space\<close>

lemma a_space_step1:
  "layout_step sample_metric sample_frame (layout_start (a_space ctl)) =
     (layout_start (a_space ctl))\<lparr>ls_gstring := (ls_gstring (layout_start (a_space ctl)))
        \<lparr>glyphs := [anchor_glyph 0,
                    (char_glyph GLYPH_CHAR 97 0)\<lparr>gwidth := 10, grbearing := 10, gascent := 10\<rparr>,
                    char_glyph GLYPH_SPACE 32 1, anchor_glyph 2],
         physical_ascent := 10, sub_width := 10, sub_rbearing := 10, srbearing := 10,
         swidth := 10, sascent := 10, sdescent := 3\<rparr>, ls_g := 2\<rparr>"
  by (simp add: layout_step_def insert_box_edges_def McatCf_def run_defs sample_metric_def
        layout_start_def a_space_def sample_defs Let_def)

lemma a_space_step2:
  "layout_step sample_metric sample_frame
     ((layout_start (a_space ctl))\<lparr>ls_gstring := (ls_gstring (layout_start (a_space ctl)))
        \<lparr>glyphs := [anchor_glyph 0,
                    (char_glyph GLYPH_CHAR 97 0)\<lparr>gwidth := 10, grbearing := 10, gascent := 10\<rparr>,
                    char_glyph GLYPH_SPACE 32 1, anchor_glyph 2],
         physical_ascent := 10, sub_width := 10, sub_rbearing := 10, srbearing := 10,
         swidth := 10, sascent := 10, sdescent := 3\<rparr>, ls_g := 2\<rparr>) =
     (layout_start (a_space ctl))\<lparr>ls_gstring := (ls_gstring (layout_start (a_space ctl)))
        \<lparr>glyphs := [anchor_glyph 0,
                    (char_glyph GLYPH_CHAR 97 0)\<lparr>gwidth := 10, grbearing := 10, gascent := 10\<rparr>,
                    (char_glyph GLYPH_SPACE 32 1)\<lparr>gwidth := 10, grbearing := 10\<rparr>,
                    anchor_glyph 2],
         physical_ascent := 10, sub_width := 10, sub_rbearing := 10, srbearing := 20,
         swidth := 20, sascent := 10, sdescent := 3\<rparr>, ls_g := 3\<rparr>"
  by (simp add: layout_step_def insert_box_edges_def McatCf_def space_defs
        layout_start_def a_space_def sample_defs Let_def)

lemma a_space_loop:
  "layout_loop sample_metric sample_frame (layout_start (a_space ctl)) =
     (layout_start (a_space ctl))\<lparr>ls_gstring := (ls_gstring (layout_start (a_space ctl)))
        \<lparr>glyphs := [anchor_glyph 0,
                    (char_glyph GLYPH_CHAR 97 0)\<lparr>gwidth := 10, grbearing := 10, gascent := 10\<rparr>,
                    (char_glyph GLYPH_SPACE 32 1)\<lparr>gwidth := 10, grbearing := 10\<rparr>,
                    anchor_glyph 2],
         physical_ascent := 10, sub_width := 10, sub_rbearing := 10, srbearing := 20,
         swidth := 20, sascent := 10, sdescent := 3\<rparr>, ls_g := 3\<rparr>"
proof -
  have "layout_loop sample_metric sample_frame (layout_start (a_space ctl))
      = layout_loop sample_metric sample_frame
          (layout_step sample_metric sample_frame (layout_start (a_space ctl)))"
    by (rule loop_continues)
       (simp add: layout_start_def a_space_def sample_defs MGLYPH_def used_def)
  also have "\<dots> = layout_loop sample_metric sample_frame
      (layout_step sample_metric sample_frame
         (layout_step sample_metric sample_frame (layout_start (a_space ctl))))"
    unfolding a_space_step1
    by (rule loop_continues)
       (simp add: layout_start_def a_space_def sample_defs MGLYPH_def used_def)
  also have "\<dots> = layout_step sample_metric sample_frame
         (layout_step sample_metric sample_frame (layout_start (a_space ctl)))"
    unfolding a_space_step1 a_space_step2
    by (rule loop_stops)
       (simp add: layout_start_def a_space_def sample_defs MGLYPH_def used_def)
  finally show ?thesis unfolding a_space_step1 a_space_step2 .
qed

lemma control_a_space: "control (a_space ctl) = ctl"
  by (simp add: a_space_def)

lemma a_space_layout:
  "sascent (layout_glyph_string sample_metric sample_frame (a_space ctl)) = 10"
  "physical_ascent (layout_glyph_string sample_metric sample_frame (a_space ctl)) = 10"
  "sdescent (layout_glyph_string sample_metric sample_frame (a_space ctl)) = 3"
  "physical_descent (layout_glyph_string sample_metric sample_frame (a_space ctl)) = 0"
  "line_ascent (layout_glyph_string sample_metric sample_frame (a_space ctl))
     = clamp_line (min_line_ascent ctl) (max_line_ascent ctl) 10"
  "line_descent (layout_glyph_string sample_metric sample_frame (a_space ctl))
     = clamp_line (min_line_descent ctl) (max_line_descent ctl) 3"
  unfolding layout_glyph_string_def a_space_loop
  by (simp_all add: insert_last_box_edge_def finish_line_metrics_def layout_start_def
        a_space_def sample_gstring_def Let_def)

text \<open>
  C9, amended.  After layout\_glyph\_string the ascent of the line is the larger of
  \<open>ascent\<close> and \<open>physical_ascent\<close>, raised to \<open>min_line_ascent\<close> when it
  is below it, and otherwise lowered to \<open>max_line_ascent\<close> when that bound is set
  (not 0), is above \<open>min_line_ascent\<close> and is exceeded; the descent likewise.  So
  the line is at least as high as the text when \<open>max_line_ascent\<close> is 0, is not
  above \<open>min_line_ascent\<close>, or is not exceeded, and likewise for the descent.
\<close>

theorem layout_glyph_string_line_ascent:
  assumes "gs' = layout_glyph_string find_metric frame gs"
  shows "line_ascent gs'
           = clamp_line (min_line_ascent (control gs)) (max_line_ascent (control gs))
               (max (sascent gs') (physical_ascent gs'))
       \<and> line_descent gs'
           = clamp_line (min_line_descent (control gs)) (max_line_descent (control gs))
               (max (sdescent gs') (physical_descent gs'))
       \<and> (max_line_ascent (control gs) = 0
            \<or> max_line_ascent (control gs) \<le> min_line_ascent (control gs)
            \<or> max (sascent gs') (physical_ascent gs') \<le> max_line_ascent (control gs)
          \<longrightarrow> max (sascent gs') (physical_ascent gs') \<le> line_ascent gs')
       \<and> (max_line_descent (control gs) = 0
            \<or> max_line_descent (control gs) \<le> min_line_descent (control gs)
            \<or> max (sdescent gs') (physical_descent gs') \<le> max_line_descent (control gs)
          \<longrightarrow> max (sdescent gs') (physical_descent gs') \<le> line_descent gs')"
proof -
  define st where "st = layout_loop find_metric frame (layout_start gs)"
  define gs1 where "gs1 = insert_last_box_edge frame st"
  define gs2 where "gs2 = finish_line_metrics (ls_box_line_height st) gs1"
  have c1: "control gs1 = control gs"
    by (simp add: gs1_def st_def control_insert_last_box_edge control_layout_loop
          layout_start_def)
  have eq: "gs' = (if orientation_reversed (control gs2) \<and> ls_tab_found st
         then rtl_tab_fix (default_tab_width frame gs) gs2 (used gs2 - 2) (indent gs2)
         else gs2)"
    unfolding assms layout_glyph_string_def Let_def st_def gs1_def gs2_def by (rule refl)
  have same: "line_ascent gs' = line_ascent gs2" "line_descent gs' = line_descent gs2"
    "sascent gs' = sascent gs2" "sdescent gs' = sdescent gs2"
    "physical_ascent gs' = physical_ascent gs2" "physical_descent gs' = physical_descent gs2"
    unfolding eq by (simp_all add: rtl_tab_fix_keeps)
  have a: "line_ascent gs'
           = clamp_line (min_line_ascent (control gs)) (max_line_ascent (control gs))
               (max (sascent gs') (physical_ascent gs'))"
    and d: "line_descent gs'
           = clamp_line (min_line_descent (control gs)) (max_line_descent (control gs))
               (max (sdescent gs') (physical_descent gs'))"
    unfolding same using finish_line_metrics_lines[of "ls_box_line_height st" gs1]
    by (simp_all add: gs2_def c1)
  show ?thesis
    using a d
      clamp_line_ge[of "max_line_ascent (control gs)" "min_line_ascent (control gs)"
        "max (sascent gs') (physical_ascent gs')"]
      clamp_line_ge[of "max_line_descent (control gs)" "min_line_descent (control gs)"
        "max (sdescent gs') (physical_descent gs')"]
    by auto
qed

text \<open>
  The theorem at the sample \<open>a\<close>, space under the sample control, which sets no
  bound: the line is as high as the text.
\<close>

theorem layout_glyph_string_line_ascent_witness:
  "line_ascent (layout_glyph_string sample_metric sample_frame (a_space sample_control)) = 10
   \<and> max (sascent (layout_glyph_string sample_metric sample_frame (a_space sample_control)))
         (physical_ascent
            (layout_glyph_string sample_metric sample_frame (a_space sample_control)))
       \<le> line_ascent
            (layout_glyph_string sample_metric sample_frame (a_space sample_control))
   \<and> line_descent (layout_glyph_string sample_metric sample_frame (a_space sample_control)) = 3
   \<and> max (sdescent (layout_glyph_string sample_metric sample_frame (a_space sample_control)))
         (physical_descent
            (layout_glyph_string sample_metric sample_frame (a_space sample_control)))
       \<le> line_descent
            (layout_glyph_string sample_metric sample_frame (a_space sample_control))"
  using layout_glyph_string_line_ascent
          [OF refl, of sample_metric sample_frame "a_space sample_control"]
  by (simp add: a_space_layout control_a_space clamp_line_def sample_control_def)

text \<open>
  C9 as the specification states it fails: under a control with
  \<open>max_line_ascent = 5\<close> and \<open>max_line_descent = 2\<close> the same text has the
  ascent 10 and the descent 3, and the line gets the ascent 5 and the descent 2.
\<close>

theorem layout_glyph_string_line_below_text:
  "sascent (layout_glyph_string sample_metric sample_frame
      (a_space (sample_control\<lparr>max_line_ascent := 5, max_line_descent := 2\<rparr>))) = 10
   \<and> physical_ascent (layout_glyph_string sample_metric sample_frame
      (a_space (sample_control\<lparr>max_line_ascent := 5, max_line_descent := 2\<rparr>))) = 10
   \<and> line_ascent (layout_glyph_string sample_metric sample_frame
      (a_space (sample_control\<lparr>max_line_ascent := 5, max_line_descent := 2\<rparr>))) = 5
   \<and> sdescent (layout_glyph_string sample_metric sample_frame
      (a_space (sample_control\<lparr>max_line_ascent := 5, max_line_descent := 2\<rparr>))) = 3
   \<and> line_descent (layout_glyph_string sample_metric sample_frame
      (a_space (sample_control\<lparr>max_line_ascent := 5, max_line_descent := 2\<rparr>))) = 2"
  by (simp add: a_space_layout clamp_line_def sample_control_def)

subsection \<open>The position at which truncate\_gstring cuts a line\<close>











subsection \<open>A rejected break position\<close>

text \<open>
  C10.  When the \<open>line_break\<close> callback, asked at the overflow point, answers a
  position that is not after \<open>from\<close> or not before \<open>to\<close>, truncate\_gstring
  returns the glyph string as it was.
\<close>

theorem truncate_gstring_rejected_break:
  assumes callback: "line_break (control gstring) = Some break"
    and rejected:
      "break mt (sfrom gstring + int (overflow_point gstring)) (sfrom gstring) (sto gstring)
          0 0 \<le> sfrom gstring
       \<or> break mt (sfrom gstring + int (overflow_point gstring)) (sfrom gstring) (sto gstring)
          0 0 \<ge> sto gstring"
  shows "truncate_gstring compose find_metric frame mt gstring = gstring"
  using callback rejected
  by (auto simp: truncate_gstring_def break_position_def Let_def)

text \<open>The theorem at \<open>ab cdef\<close> with a callback that answers the end of the line.\<close>

theorem truncate_gstring_rejected_break_witness:
  "line_break (control (ab_cdef (sample_control\<lparr>line_break := Some break_at_end\<rparr>)))
     = Some break_at_end
   \<and> break_at_end (text_of ''ab cdef'')
         (sfrom (ab_cdef (sample_control\<lparr>line_break := Some break_at_end\<rparr>))
          + int (overflow_point (ab_cdef (sample_control\<lparr>line_break := Some break_at_end\<rparr>))))
         (sfrom (ab_cdef (sample_control\<lparr>line_break := Some break_at_end\<rparr>)))
         (sto (ab_cdef (sample_control\<lparr>line_break := Some break_at_end\<rparr>))) 0 0
       = 7
   \<and> sto (ab_cdef (sample_control\<lparr>line_break := Some break_at_end\<rparr>)) = 7
   \<and> truncate_gstring sample_compose sample_metric sample_frame (text_of ''ab cdef'')
         (ab_cdef (sample_control\<lparr>line_break := Some break_at_end\<rparr>))
       = ab_cdef (sample_control\<lparr>line_break := Some break_at_end\<rparr>)"
proof -
  have c: "line_break (control (ab_cdef (sample_control\<lparr>line_break := Some break_at_end\<rparr>)))
     = Some break_at_end"
    "sto (ab_cdef (sample_control\<lparr>line_break := Some break_at_end\<rparr>)) = 7"
    by (simp_all add: ab_cdef_def sample_gstring_def)
  have r: "break_at_end (text_of ''ab cdef'')
         (sfrom (ab_cdef (sample_control\<lparr>line_break := Some break_at_end\<rparr>))
          + int (overflow_point (ab_cdef (sample_control\<lparr>line_break := Some break_at_end\<rparr>))))
         (sfrom (ab_cdef (sample_control\<lparr>line_break := Some break_at_end\<rparr>)))
         (sto (ab_cdef (sample_control\<lparr>line_break := Some break_at_end\<rparr>))) 0 0
       = 7"
    by (simp add: break_at_end_def c)
  from truncate_gstring_rejected_break
         [of "ab_cdef (sample_control\<lparr>line_break := Some break_at_end\<rparr>)" break_at_end
             "text_of ''ab cdef''" sample_compose sample_metric sample_frame]
  have "truncate_gstring sample_compose sample_metric sample_frame (text_of ''ab cdef'')
         (ab_cdef (sample_control\<lparr>line_break := Some break_at_end\<rparr>))
       = ab_cdef (sample_control\<lparr>line_break := Some break_at_end\<rparr>)"
    by (simp add: c break_at_end_def)
  with c r show ?thesis by simp
qed

end
